theory Spec2Isabelle
  imports Main "HOL-Library.Sublist"
begin

section \<open>The Go standard library functions the programs call\<close>

text \<open>
  A Go string is a sequence of bytes, here a \<^typ>\<open>string\<close> (a list of 8-bit characters).

  \<^verbatim>\<open>strings.TrimSpace\<close> removes the leading and trailing runes for which
  \<^verbatim>\<open>unicode.IsSpace\<close> holds: tab, line feed, vertical tab, form feed, carriage return,
  space, U+0085, U+00A0, U+1680, U+2000 to U+200A, U+2028, U+2029, U+202F, U+205F and U+3000.
  The table below holds their UTF-8 encodings. A byte sequence that is not one of these
  encodings decodes to some other rune (or to the error rune of width one), which is not
  white space, so trimming stops there.
\<close>

definition spaceRunes :: "string list" where
  "spaceRunes =
    [[CHR 0x09], [CHR 0x0A], [CHR 0x0B], [CHR 0x0C], [CHR 0x0D], [CHR 0x20],
     [CHR 0xC2, CHR 0x85], [CHR 0xC2, CHR 0xA0],
     [CHR 0xE1, CHR 0x9A, CHR 0x80],
     [CHR 0xE2, CHR 0x80, CHR 0x80], [CHR 0xE2, CHR 0x80, CHR 0x81],
     [CHR 0xE2, CHR 0x80, CHR 0x82], [CHR 0xE2, CHR 0x80, CHR 0x83],
     [CHR 0xE2, CHR 0x80, CHR 0x84], [CHR 0xE2, CHR 0x80, CHR 0x85],
     [CHR 0xE2, CHR 0x80, CHR 0x86], [CHR 0xE2, CHR 0x80, CHR 0x87],
     [CHR 0xE2, CHR 0x80, CHR 0x88], [CHR 0xE2, CHR 0x80, CHR 0x89],
     [CHR 0xE2, CHR 0x80, CHR 0x8A],
     [CHR 0xE2, CHR 0x80, CHR 0xA8], [CHR 0xE2, CHR 0x80, CHR 0xA9],
     [CHR 0xE2, CHR 0x80, CHR 0xAF],
     [CHR 0xE2, CHR 0x81, CHR 0x9F],
     [CHR 0xE3, CHR 0x80, CHR 0x80]]"

text \<open>
  \<open>trimFront tbl s\<close> drops from the front of \<open>s\<close> every leading occurrence of an entry of
  \<open>tbl\<close>, one after the other, until the front of \<open>s\<close> is none of them.
\<close>

fun trimFront :: "string list \<Rightarrow> string \<Rightarrow> string" where
  "trimFront tbl [] = []"
| "trimFront tbl (c # cs) =
     (case List.find (\<lambda>e. prefix e (c # cs)) tbl of
        None \<Rightarrow> c # cs
      | Some e \<Rightarrow> trimFront tbl (drop (length e - 1) cs))"

definition TrimLeftSpace :: "string \<Rightarrow> string" where
  "TrimLeftSpace s = trimFront spaceRunes s"

text \<open>
  Trimming on the right decodes the last rune of the string; the last rune is a white
  space exactly when the string ends with one of the encodings, so the right trim is the
  left trim of the reversed string against the reversed encodings.
\<close>

definition TrimRightSpace :: "string \<Rightarrow> string" where
  "TrimRightSpace s = rev (trimFront (map rev spaceRunes) (rev s))"

definition TrimSpace :: "string \<Rightarrow> string" where
  "TrimSpace s = TrimRightSpace (TrimLeftSpace s)"

text \<open>
  \<^verbatim>\<open>strings.HasPrefix(s, prefix)\<close> is
  \<^verbatim>\<open>len(s) >= len(prefix) && s[:len(prefix)] == prefix\<close>.
\<close>

definition HasPrefix :: "string \<Rightarrow> string \<Rightarrow> bool" where
  "HasPrefix s p = (length p \<le> length s \<and> take (length p) s = p)"

text \<open>
  \<^verbatim>\<open>strings.Contains(s, substr)\<close> is \<^verbatim>\<open>strings.Index(s, substr) >= 0\<close>: some
  position of \<open>s\<close> starts a byte-for-byte copy of \<open>substr\<close>. The search tries every start
  position from the left.
\<close>

fun Contains :: "string \<Rightarrow> string \<Rightarrow> bool" where
  "Contains [] substr = (substr = [])"
| "Contains (c # cs) substr = (HasPrefix (c # cs) substr \<or> Contains cs substr)"

section \<open>The external resolver\<close>

text \<open>
  Every program runs \<^verbatim>\<open>dig +short CNAME <subdomain>\<close> through \<^verbatim>\<open>cmd.Run()\<close>. A run
  leaves the text of standard output, the text of standard error, and the error value of
  \<^verbatim>\<open>cmd.Run()\<close>: \<open>None\<close> for \<^verbatim>\<open>nil\<close>, \<open>Some msg\<close> for an error whose text is
  \<open>msg\<close>.

  The resolver is outside the program, and two runs for the same name may answer
  differently. It is a function of the name and of a state of the world \<open>'w\<close>, which it
  returns updated.
\<close>

record dig_run =
  Stdout :: string
  Stderr :: string
  Err :: "string option"

type_synonym 'w resolver = "string \<Rightarrow> 'w \<Rightarrow> dig_run \<times> 'w"

text \<open>
  Two resolvers stand in for dig in the examples. \<open>replayDig\<close> answers from a script, one
  run after the other whatever the name is, so that the same name can get different
  answers; its world is the rest of the script, and a run past the end of the script
  fails. \<open>tableDig\<close> answers from a table of names and counts its runs, so that equal
  names always get equal answers.
\<close>

fun replayDig :: "dig_run list resolver" where
  "replayDig subdomain [] =
     (\<lparr>Stdout = [], Stderr = [], Err = Some ''exit status 9''\<rparr>, [])"
| "replayDig subdomain (run # script) = (run, script)"

definition tableDig :: "(string \<Rightarrow> dig_run) \<Rightarrow> nat resolver" where
  "tableDig answer subdomain n = (answer subdomain, Suc n)"

text \<open>
  \<^verbatim>\<open>fmt.Errorf("error executing dig command for %s: %v", subdomain, err)\<close>
\<close>

definition digError :: "string \<Rightarrow> string \<Rightarrow> string" where
  "digError subdomain msg = ''error executing dig command for '' @ subdomain @ '': '' @ msg"

section \<open>main.go, first program: the NXDOMAIN sentinel\<close>

text \<open>
  \<^verbatim>\<open>getCNAMERecord\<close> of the first program of main.go, given what the run of dig
  left. The result is the error (\<open>Inl\<close>) or the string it returns (\<open>Inr\<close>).
\<close>

definition getCNAMERecord_main :: "string \<Rightarrow> dig_run \<Rightarrow> string + string" where
  "getCNAMERecord_main subdomain run =
     (case Err run of
        Some msg \<Rightarrow>
          if Contains (Stderr run) ''status: NXDOMAIN'' then Inr ''NXDOMAIN''
          else Inl (digError subdomain msg)
      | None \<Rightarrow>
          (let cname = TrimSpace (Stdout run)
           in if cname = [] then Inr ''No CNAME record'' else Inr cname))"

text \<open>
  The loop of \<^verbatim>\<open>checkCNAMERecords\<close>, with the map built so far; the first error ends
  it and the map is dropped (\<^verbatim>\<open>return nil, err\<close>).
\<close>

fun checkCNAMERecords_main_loop ::
  "'w resolver \<Rightarrow> string list \<Rightarrow> (string \<rightharpoonup> string) \<Rightarrow> 'w \<Rightarrow> (string + (string \<rightharpoonup> string)) \<times> 'w" where
  "checkCNAMERecords_main_loop dig [] results w = (Inr results, w)"
| "checkCNAMERecords_main_loop dig (subdomain # rest) results w =
     (case dig subdomain w of
        (run, w') \<Rightarrow>
          (case getCNAMERecord_main subdomain run of
             Inl err \<Rightarrow> (Inl err, w')
           | Inr cname \<Rightarrow> checkCNAMERecords_main_loop dig rest (results(subdomain \<mapsto> cname)) w'))"

definition checkCNAMERecords_main ::
  "'w resolver \<Rightarrow> string list \<Rightarrow> 'w \<Rightarrow> (string + (string \<rightharpoonup> string)) \<times> 'w" where
  "checkCNAMERecords_main dig subdomains w = checkCNAMERecords_main_loop dig subdomains Map.empty w"

section \<open>part 002: records with a status\<close>

text \<open>
  \<^verbatim>\<open>Record\<close> of part 002; its field \<^verbatim>\<open>CNAME\<close> is \<open>sCNAME\<close> here, the name
  \<open>CNAME\<close> being the field of the record of parts 000 and 001.
\<close>

record StatusRecord =
  sCNAME :: string
  Status :: string
  Detail :: string

definition getCNAMERecord_part002 :: "string \<Rightarrow> dig_run \<Rightarrow> string + StatusRecord" where
  "getCNAMERecord_part002 subdomain run =
     (case Err run of
        Some msg \<Rightarrow> Inl (digError subdomain msg)
      | None \<Rightarrow>
          (let output = TrimSpace (Stdout run); stderrOutput = Stderr run
           in if Contains stderrOutput ''status: NXDOMAIN''
              then Inr \<lparr>sCNAME = [], Status = ''NXDOMAIN'', Detail = ''Status: NXDOMAIN''\<rparr>
              else if output = []
              then Inr \<lparr>sCNAME = [], Status = ''NO CNAME'', Detail = ''Status: noerror''\<rparr>
              else Inr \<lparr>sCNAME = output, Status = ''CNAME FOUND'', Detail = ''Status: noerror''\<rparr>))"

section \<open>parts 000 and 001: records with a verdict\<close>

record Record =
  CNAME :: string
  IsVulnerable :: bool

text \<open>\<^verbatim>\<open>getCNAMERecord\<close> is the same text in part 000 and part 001.\<close>

definition getCNAMERecord :: "string \<Rightarrow> dig_run \<Rightarrow> string + string" where
  "getCNAMERecord subdomain run =
     (case Err run of
        Some msg \<Rightarrow> Inl (digError subdomain msg)
      | None \<Rightarrow>
          (let cname = TrimSpace (Stdout run)
           in if cname = [] then Inr ''No CNAME record'' else Inr cname))"

subsection \<open>part 000\<close>

fun matchesAnyPattern_part000_loop :: "string \<Rightarrow> string list \<Rightarrow> bool" where
  "matchesAnyPattern_part000_loop cname [] = False"
| "matchesAnyPattern_part000_loop cname (pattern # rest) =
     (if Contains cname pattern then True else matchesAnyPattern_part000_loop cname rest)"

definition matchesAnyPattern_part000 :: "string \<Rightarrow> string list \<Rightarrow> bool" where
  "matchesAnyPattern_part000 cname patterns =
     (if cname = ''No CNAME record'' then False
      else matchesAnyPattern_part000_loop cname patterns)"

fun checkCNAMERecords_part000_loop ::
  "'w resolver \<Rightarrow> string list \<Rightarrow> string list \<Rightarrow> (string \<rightharpoonup> Record) \<Rightarrow> 'w
     \<Rightarrow> (string + (string \<rightharpoonup> Record)) \<times> 'w" where
  "checkCNAMERecords_part000_loop dig [] patterns results w = (Inr results, w)"
| "checkCNAMERecords_part000_loop dig (subdomain # rest) patterns results w =
     (case dig subdomain w of
        (run, w') \<Rightarrow>
          (case getCNAMERecord subdomain run of
             Inl err \<Rightarrow> (Inl err, w')
           | Inr cname \<Rightarrow>
               (let isVulnerable = matchesAnyPattern_part000 cname patterns
                in checkCNAMERecords_part000_loop dig rest patterns
                     (results(subdomain \<mapsto> \<lparr>CNAME = cname, IsVulnerable = isVulnerable\<rparr>)) w')))"

definition checkCNAMERecords_part000 ::
  "'w resolver \<Rightarrow> string list \<Rightarrow> string list \<Rightarrow> 'w \<Rightarrow> (string + (string \<rightharpoonup> Record)) \<times> 'w" where
  "checkCNAMERecords_part000 dig subdomains patterns w =
     checkCNAMERecords_part000_loop dig subdomains patterns Map.empty w"

subsection \<open>part 001\<close>

definition extractWildcardDomain :: "string \<Rightarrow> string" where
  "extractWildcardDomain cname =
     (if cname = ''No CNAME record'' then []
      else (let cname' = TrimSpace cname
            in if HasPrefix cname' ''*.'' then drop 2 cname' else cname'))"

fun matchesAnyPattern_loop :: "string \<Rightarrow> string list \<Rightarrow> bool" where
  "matchesAnyPattern_loop domain [] = False"
| "matchesAnyPattern_loop domain (pattern # rest) =
     (if Contains domain pattern then True else matchesAnyPattern_loop domain rest)"

definition matchesAnyPattern :: "string \<Rightarrow> string list \<Rightarrow> bool" where
  "matchesAnyPattern domain patterns =
     (if domain = [] then False else matchesAnyPattern_loop domain patterns)"

fun checkCNAMERecords_loop ::
  "'w resolver \<Rightarrow> string list \<Rightarrow> string list \<Rightarrow> (string \<rightharpoonup> Record) \<Rightarrow> 'w
     \<Rightarrow> (string + (string \<rightharpoonup> Record)) \<times> 'w" where
  "checkCNAMERecords_loop dig [] patterns results w = (Inr results, w)"
| "checkCNAMERecords_loop dig (subdomain # rest) patterns results w =
     (case dig subdomain w of
        (run, w') \<Rightarrow>
          (case getCNAMERecord subdomain run of
             Inl err \<Rightarrow> (Inl err, w')
           | Inr cname \<Rightarrow>
               (let wildcardDomain = extractWildcardDomain cname;
                    isVulnerable = matchesAnyPattern wildcardDomain patterns
                in checkCNAMERecords_loop dig rest patterns
                     (results(subdomain \<mapsto> \<lparr>CNAME = cname, IsVulnerable = isVulnerable\<rparr>)) w')))"

definition checkCNAMERecords ::
  "'w resolver \<Rightarrow> string list \<Rightarrow> string list \<Rightarrow> 'w \<Rightarrow> (string + (string \<rightharpoonup> Record)) \<times> 'w" where
  "checkCNAMERecords dig subdomains patterns w =
     checkCNAMERecords_loop dig subdomains patterns Map.empty w"

text \<open>
  The end of \<^verbatim>\<open>main\<close> in part 001 writes the report: it creates the result file, puts a
  \<^verbatim>\<open>bufio.Writer\<close> on it, hands one \<^verbatim>\<open>fmt.Fprintf\<close> text to the writer for each
  record marked vulnerable, flushes the writer and returns.

  The file is a device outside the program. A call of its \<^verbatim>\<open>Write\<close> either takes all
  the bytes (\<open>None\<close>) or fails with a message after it took some of them
  (\<open>Some (n, msg)\<close>); \<open>dev k\<close> is what happens at the call that comes after \<open>k\<close> earlier
  calls. The state of the output is the bytes on disk, the bytes in the buffer of the
  writer, the error the writer remembers, and the number of calls of the file's
  \<^verbatim>\<open>Write\<close> so far.
\<close>

record out_state =
  onDisk :: string
  buffered :: string
  stickyErr :: "string option"
  fileWrites :: nat

type_synonym device = "nat \<Rightarrow> (nat \<times> string) option"

text \<open>A device that never fails, for the examples.\<close>

definition reliableDevice :: device where
  "reliableDevice k = None"

definition file_Write ::
  "device \<Rightarrow> string \<Rightarrow> out_state \<Rightarrow> (nat \<times> string option) \<times> out_state" where
  "file_Write dev p s =
     (case dev (fileWrites s) of
        None \<Rightarrow>
          ((length p, None), s\<lparr>onDisk := onDisk s @ p, fileWrites := Suc (fileWrites s)\<rparr>)
      | Some (n, msg) \<Rightarrow>
          ((min n (length p), Some msg),
           s\<lparr>onDisk := onDisk s @ take n p, fileWrites := Suc (fileWrites s)\<rparr>))"

text \<open>
  \<^verbatim>\<open>bufio.Writer.Flush\<close>: nothing happens after an earlier error or on an empty buffer;
  otherwise the buffer goes to the file, and on failure the writer keeps the bytes the
  file did not take and remembers the error.
\<close>

definition bufio_Flush :: "device \<Rightarrow> out_state \<Rightarrow> out_state" where
  "bufio_Flush dev s =
     (if stickyErr s \<noteq> None then s
      else if buffered s = [] then s
      else (case file_Write dev (buffered s) s of
              ((n, None), s') \<Rightarrow> s'\<lparr>buffered := []\<rparr>
            | ((n, Some msg), s') \<Rightarrow>
                s'\<lparr>buffered := drop n (buffered s), stickyErr := Some msg\<rparr>))"

text \<open>
  \<^verbatim>\<open>bufio.Writer.Write\<close>, with the buffer of 4096 bytes that \<^verbatim>\<open>bufio.NewWriter\<close>
  gives: while the text is longer than the free part of the buffer and no error has
  occurred, the text goes straight to the file if the buffer is empty, and otherwise the
  buffer is filled up and flushed; after that the remembered error is returned, or the
  rest of the text is put in the buffer.
\<close>

function bufio_Write :: "device \<Rightarrow> string \<Rightarrow> out_state \<Rightarrow> string option \<times> out_state" where
  "bufio_Write dev p s =
     (if length p > 4096 - length (buffered s) \<and> stickyErr s = None then
        (if buffered s = [] then
           (case file_Write dev p s of
              ((n, err), s') \<Rightarrow> bufio_Write dev (drop n p) (s'\<lparr>stickyErr := err\<rparr>))
         else
           (let n = 4096 - length (buffered s);
                s' = bufio_Flush dev (s\<lparr>buffered := buffered s @ take n p\<rparr>)
            in bufio_Write dev (drop n p) s'))
      else (case stickyErr s of
              Some msg \<Rightarrow> (Some msg, s)
            | None \<Rightarrow> (None, s\<lparr>buffered := buffered s @ p\<rparr>)))"
  by pat_completeness auto
termination
  by (relation "measure (\<lambda>(dev, p, s).
        if stickyErr s \<noteq> None then 0
        else 2 * length p + (if buffered s = [] then 1 else 2))")
     (auto simp: file_Write_def bufio_Flush_def split: option.splits prod.splits)

declare bufio_Write.simps [simp del]

text \<open>
  \<^verbatim>\<open>fmt.Fprintf(writer, "Subdomain: %s, CNAME: %s, Vulnerable: Yes\n", ...)\<close> formats
  the text and hands it to the writer in one \<^verbatim>\<open>Write\<close>.
\<close>

definition reportLine :: "string \<Rightarrow> Record \<Rightarrow> string" where
  "reportLine subdomain record =
     ''Subdomain: '' @ subdomain @ '', CNAME: '' @ CNAME record @ '', Vulnerable: Yes''
       @ [CHR 0x0A]"

text \<open>
  Go ranges over a map in an order of its own choosing; \<open>order\<close> is the order in which
  the keys came. An error of \<^verbatim>\<open>Fprintf\<close> ends the program through \<^verbatim>\<open>log.Fatalf\<close>
  (\<open>Inl\<close>, the message).
\<close>

fun main_writeLoop ::
  "device \<Rightarrow> (string \<rightharpoonup> Record) \<Rightarrow> string list \<Rightarrow> out_state \<Rightarrow> string + out_state" where
  "main_writeLoop dev results [] s = Inr s"
| "main_writeLoop dev results (subdomain # rest) s =
     (case results subdomain of
        None \<Rightarrow> main_writeLoop dev results rest s
      | Some record \<Rightarrow>
          if IsVulnerable record then
            (case bufio_Write dev (reportLine subdomain record) s of
               (Some msg, s') \<Rightarrow> Inl (''Failed to write to result file: '' @ msg)
             | (None, s') \<Rightarrow> main_writeLoop dev results rest s')
          else main_writeLoop dev results rest s)"

text \<open>
  An error of \<^verbatim>\<open>os.Create\<close> (\<open>createErr\<close>) ends the program the same way. After the
  loop \<^verbatim>\<open>main\<close> calls \<^verbatim>\<open>writer.Flush()\<close> and drops its error, then returns; the
  result \<open>Inr\<close> is what the file holds then.
\<close>

definition main_writeResults ::
  "string option \<Rightarrow> device \<Rightarrow> (string \<rightharpoonup> Record) \<Rightarrow> string list \<Rightarrow> string + string" where
  "main_writeResults createErr dev results order =
     (case createErr of
        Some msg \<Rightarrow> Inl (''Failed to create result file: '' @ msg)
      | None \<Rightarrow>
          (case main_writeLoop dev results order
                  \<lparr>onDisk = [], buffered = [], stickyErr = None, fileWrites = 0\<rparr> of
             Inl msg \<Rightarrow> Inl msg
           | Inr s \<Rightarrow> Inr (onDisk (bufio_Flush dev s))))"

text \<open>
  The lines of a text: its pieces between line feeds; a last piece without a line feed is
  a line if it is not empty.
\<close>

fun linesOf :: "string \<Rightarrow> string list" where
  "linesOf [] = []"
| "linesOf (c # cs) =
     (if c = CHR 0x0A then [] # linesOf cs
      else (case linesOf cs of [] \<Rightarrow> [[c]] | l # ls \<Rightarrow> (c # l) # ls))"

section \<open>Facts about the library functions\<close>

lemma HasPrefix_prefix: "HasPrefix s p \<longleftrightarrow> prefix p s"
  by (auto simp: HasPrefix_def prefix_def) (metis append_take_drop_id)

lemma Contains_sublist: "Contains s substr \<longleftrightarrow> sublist substr s"
  by (induction s) (auto simp: HasPrefix_prefix sublist_Cons_right)

lemma Contains_iff: "Contains s substr \<longleftrightarrow> (\<exists>before after. s = before @ substr @ after)"
  by (simp add: Contains_sublist sublist_def)

lemma matchesAnyPattern_loop_iff:
  "matchesAnyPattern_loop domain patterns \<longleftrightarrow> (\<exists>p \<in> set patterns. Contains domain p)"
  by (induction patterns) auto

lemma matchesAnyPattern_part000_loop_iff:
  "matchesAnyPattern_part000_loop cname patterns \<longleftrightarrow> (\<exists>p \<in> set patterns. Contains cname p)"
  by (induction patterns) auto

text \<open>What \<^verbatim>\<open>strings.TrimSpace\<close> returns has no white space left to trim.\<close>

lemma trimFront_suffix: "\<exists>front. s = front @ trimFront tbl s"
proof (induction tbl s rule: trimFront.induct)
  case (1 tbl)
  then show ?case by simp
next
  case (2 tbl c cs)
  show ?case
  proof (cases "List.find (\<lambda>e. prefix e (c # cs)) tbl")
    case None
    then show ?thesis by simp
  next
    case (Some e)
    from 2 [OF Some] obtain front where
      f: "drop (length e - 1) cs = front @ trimFront tbl (drop (length e - 1) cs)"
      by blast
    have "c # cs = (c # take (length e - 1) cs) @ drop (length e - 1) cs"
      by simp
    also have "\<dots> = ((c # take (length e - 1) cs) @ front)
        @ trimFront tbl (drop (length e - 1) cs)"
      using f by (metis append.assoc)
    finally show ?thesis using Some by (metis option.simps(5) trimFront.simps(2))
  qed
qed

lemma trimFront_result:
  "trimFront tbl s = [] \<or> (\<forall>e \<in> set tbl. \<not> prefix e (trimFront tbl s))"
proof (induction tbl s rule: trimFront.induct)
  case (1 tbl)
  then show ?case by simp
next
  case (2 tbl c cs)
  show ?case
  proof (cases "List.find (\<lambda>e. prefix e (c # cs)) tbl")
    case None
    then have "\<forall>e \<in> set tbl. \<not> prefix e (c # cs)"
      by (auto simp: find_None_iff)
    then show ?thesis using None by simp
  next
    case (Some e)
    then show ?thesis using 2 [OF Some] by simp
  qed
qed

lemma trimFront_fixed:
  "s = [] \<or> (\<forall>e \<in> set tbl. \<not> prefix e s) \<Longrightarrow> trimFront tbl s = s"
proof (cases s)
  case Nil
  then show ?thesis by simp
next
  case (Cons c cs)
  assume "s = [] \<or> (\<forall>e \<in> set tbl. \<not> prefix e s)"
  then have "\<forall>e \<in> set tbl. \<not> prefix e (c # cs)"
    using Cons by simp
  then have "List.find (\<lambda>e. prefix e (c # cs)) tbl = None"
    by (auto simp: find_None_iff)
  then show ?thesis using Cons by simp
qed

lemma TrimRightSpace_prefix: "prefix (TrimRightSpace s) s"
proof -
  obtain front where "rev s = front @ trimFront (map rev spaceRunes) (rev s)"
    using trimFront_suffix by blast
  then have "s = rev (trimFront (map rev spaceRunes) (rev s)) @ rev front"
    by (metis rev_append rev_rev_ident)
  then show ?thesis
    unfolding TrimRightSpace_def by (metis prefixI)
qed

lemma TrimRightSpace_fixed: "TrimRightSpace (TrimRightSpace s) = TrimRightSpace s"
proof -
  let ?t = "trimFront (map rev spaceRunes) (rev s)"
  have "trimFront (map rev spaceRunes) ?t = ?t"
    by (rule trimFront_fixed) (rule trimFront_result)
  then show ?thesis by (simp add: TrimRightSpace_def)
qed

lemma TrimSpace_no_leading:
  "TrimLeftSpace (TrimSpace s) = TrimSpace s"
proof -
  let ?l = "TrimLeftSpace s"
  have pre: "prefix (TrimSpace s) ?l"
    unfolding TrimSpace_def by (rule TrimRightSpace_prefix)
  have "?l = [] \<or> (\<forall>e \<in> set spaceRunes. \<not> prefix e ?l)"
    unfolding TrimLeftSpace_def by (rule trimFront_result)
  then have "TrimSpace s = [] \<or> (\<forall>e \<in> set spaceRunes. \<not> prefix e (TrimSpace s))"
    using pre by (metis prefix_Nil prefix_order.trans)
  then show ?thesis
    unfolding TrimLeftSpace_def by (rule trimFront_fixed)
qed

lemma TrimSpace_idem: "TrimSpace (TrimSpace s) = TrimSpace s"
proof -
  have "TrimSpace (TrimSpace s) = TrimRightSpace (TrimSpace s)"
    by (simp add: TrimSpace_def [of "TrimSpace s"] TrimSpace_no_leading)
  also have "\<dots> = TrimSpace s"
    by (simp add: TrimSpace_def TrimRightSpace_fixed)
  finally show ?thesis .
qed

section \<open>The classifier\<close>

lemma getCNAMERecord_Inr:
  "getCNAMERecord subdomain run = Inr cname \<Longrightarrow> Err run = None"
  by (cases "Err run") (simp_all add: getCNAMERecord_def)

lemma main_nxdomain_iff:
  "getCNAMERecord_main subdomain run = Inr ''NXDOMAIN'' \<longleftrightarrow>
     (\<exists>msg. Err run = Some msg) \<and> Contains (Stderr run) ''status: NXDOMAIN''
     \<or> Err run = None \<and> TrimSpace (Stdout run) = ''NXDOMAIN''"
  by (auto simp: getCNAMERecord_main_def Let_def split: option.splits)

lemma part002_nxdomain_iff:
  "(\<exists>r. getCNAMERecord_part002 subdomain run = Inr r \<and> Status r = ''NXDOMAIN'') \<longleftrightarrow>
     Err run = None \<and> Contains (Stderr run) ''status: NXDOMAIN''"
  by (auto simp: getCNAMERecord_part002_def Let_def split: option.splits)

lemma part002_failed:
  "Err run = Some msg \<Longrightarrow> getCNAMERecord_part002 subdomain run = Inl (digError subdomain msg)"
  by (simp add: getCNAMERecord_part002_def)

lemma part002_error_iff:
  "(\<exists>e. getCNAMERecord_part002 subdomain run = Inl e) \<longleftrightarrow> Err run \<noteq> None"
  by (auto simp: getCNAMERecord_part002_def Let_def split: option.splits)

lemma part002_nocname_iff:
  "(\<exists>r. getCNAMERecord_part002 subdomain run = Inr r \<and> Status r = ''NO CNAME'') \<longleftrightarrow>
     Err run = None \<and> \<not> Contains (Stderr run) ''status: NXDOMAIN''
     \<and> TrimSpace (Stdout run) = []"
  by (auto simp: getCNAMERecord_part002_def Let_def split: option.splits)

lemma part002_found_iff:
  "(\<exists>r. getCNAMERecord_part002 subdomain run = Inr r \<and> Status r = ''CNAME FOUND'') \<longleftrightarrow>
     Err run = None \<and> \<not> Contains (Stderr run) ''status: NXDOMAIN''
     \<and> TrimSpace (Stdout run) \<noteq> []"
  by (auto simp: getCNAMERecord_part002_def Let_def split: option.splits)

lemma part002_exactly_one:
  "length (filter (\<lambda>b. b)
     [\<exists>e. getCNAMERecord_part002 subdomain run = Inl e,
      \<exists>r. getCNAMERecord_part002 subdomain run = Inr r \<and> Status r = ''NXDOMAIN'',
      \<exists>r. getCNAMERecord_part002 subdomain run = Inr r \<and> Status r = ''NO CNAME'',
      \<exists>r. getCNAMERecord_part002 subdomain run = Inr r \<and> Status r = ''CNAME FOUND'']) = 1"
  by (simp add: getCNAMERecord_part002_def Let_def split: option.splits)

lemma main_failed:
  "Err run = Some msg \<Longrightarrow> \<not> Contains (Stderr run) ''status: NXDOMAIN''
     \<Longrightarrow> getCNAMERecord_main subdomain run = Inl (digError subdomain msg)"
  by (simp add: getCNAMERecord_main_def)

lemma main_error_iff:
  "(\<exists>e. getCNAMERecord_main subdomain run = Inl e) \<longleftrightarrow>
     Err run \<noteq> None \<and> \<not> Contains (Stderr run) ''status: NXDOMAIN''"
  by (auto simp: getCNAMERecord_main_def Let_def split: option.splits)

lemma main_nocname_iff:
  "getCNAMERecord_main subdomain run = Inr ''No CNAME record'' \<longleftrightarrow>
     Err run = None
     \<and> (TrimSpace (Stdout run) = [] \<or> TrimSpace (Stdout run) = ''No CNAME record'')"
  by (auto simp: getCNAMERecord_main_def Let_def split: option.splits)

lemma main_found_iff:
  "(\<exists>t. getCNAMERecord_main subdomain run = Inr t \<and> t \<noteq> ''NXDOMAIN''
        \<and> t \<noteq> ''No CNAME record'') \<longleftrightarrow>
     Err run = None \<and> TrimSpace (Stdout run) \<noteq> []
     \<and> TrimSpace (Stdout run) \<noteq> ''NXDOMAIN''
     \<and> TrimSpace (Stdout run) \<noteq> ''No CNAME record''"
  by (auto simp: getCNAMERecord_main_def Let_def split: option.splits)

lemma main_found_target:
  "getCNAMERecord_main subdomain run = Inr t \<Longrightarrow> t \<noteq> ''NXDOMAIN''
     \<Longrightarrow> t \<noteq> ''No CNAME record'' \<Longrightarrow> t = TrimSpace (Stdout run)"
  by (auto simp: getCNAMERecord_main_def Let_def split: option.splits if_splits)

lemma main_exactly_one:
  "length (filter (\<lambda>b. b)
     [\<exists>e. getCNAMERecord_main subdomain run = Inl e,
      getCNAMERecord_main subdomain run = Inr ''NXDOMAIN'',
      getCNAMERecord_main subdomain run = Inr ''No CNAME record'',
      \<exists>t. getCNAMERecord_main subdomain run = Inr t \<and> t \<noteq> ''NXDOMAIN''
          \<and> t \<noteq> ''No CNAME record'']) = 1"
proof (cases "getCNAMERecord_main subdomain run")
  case (Inl e)
  then show ?thesis by simp
next
  case (Inr t)
  then show ?thesis by (cases "t = ''NXDOMAIN''"; cases "t = ''No CNAME record''") simp_all
qed

text \<open>
  C1, as the code has it. Every run of dig gives exactly one of four results: the error,
  the NXDOMAIN result, the no-record result, or an answer. Which one differs between the
  two programs.
  \<^item> Part 002 returns the error exactly when the run failed, whatever standard error
    holds, and the error carries the subdomain and the text of the failure. It returns a
    record of status \<open>NXDOMAIN\<close> exactly when the run did not fail and standard error
    contains \<open>status: NXDOMAIN\<close>; of status \<open>NO CNAME\<close> exactly when the run did not
    fail, standard error does not contain the marker and the trimmed output is empty; of
    status \<open>CNAME FOUND\<close> exactly when the run did not fail, standard error does not
    contain the marker and the trimmed output is not empty.
  \<^item> The first program of main.go returns the error exactly when the run failed and
    standard error does not contain the marker. Its other results are plain strings: it
    returns \<open>NXDOMAIN\<close> exactly when the run failed and standard error contains the
    marker, or the run succeeded and its trimmed output is itself the text \<open>NXDOMAIN\<close>;
    it returns \<open>No CNAME record\<close> exactly when the run succeeded and its trimmed output
    is empty or is itself that text; it returns any other string exactly when the run
    succeeded and its trimmed output is that string and is not empty.
  In each program exactly one of the four holds of the result (the list of the four
  statements has one true entry).
\<close>

theorem classifier_nxdomain_cases:
  "(Err run = Some msg \<longrightarrow>
      getCNAMERecord_part002 subdomain run = Inl (digError subdomain msg))
   \<and> ((\<exists>e. getCNAMERecord_part002 subdomain run = Inl e) \<longleftrightarrow> Err run \<noteq> None)
   \<and> ((\<exists>r. getCNAMERecord_part002 subdomain run = Inr r \<and> Status r = ''NXDOMAIN'') \<longleftrightarrow>
      Err run = None \<and> Contains (Stderr run) ''status: NXDOMAIN'')
   \<and> ((\<exists>r. getCNAMERecord_part002 subdomain run = Inr r \<and> Status r = ''NO CNAME'') \<longleftrightarrow>
      Err run = None \<and> \<not> Contains (Stderr run) ''status: NXDOMAIN''
      \<and> TrimSpace (Stdout run) = [])
   \<and> ((\<exists>r. getCNAMERecord_part002 subdomain run = Inr r \<and> Status r = ''CNAME FOUND'') \<longleftrightarrow>
      Err run = None \<and> \<not> Contains (Stderr run) ''status: NXDOMAIN''
      \<and> TrimSpace (Stdout run) \<noteq> [])
   \<and> length (filter (\<lambda>b. b)
       [\<exists>e. getCNAMERecord_part002 subdomain run = Inl e,
        \<exists>r. getCNAMERecord_part002 subdomain run = Inr r \<and> Status r = ''NXDOMAIN'',
        \<exists>r. getCNAMERecord_part002 subdomain run = Inr r \<and> Status r = ''NO CNAME'',
        \<exists>r. getCNAMERecord_part002 subdomain run = Inr r \<and> Status r = ''CNAME FOUND''])
      = 1
   \<and> (Err run = Some msg \<and> \<not> Contains (Stderr run) ''status: NXDOMAIN'' \<longrightarrow>
      getCNAMERecord_main subdomain run = Inl (digError subdomain msg))
   \<and> ((\<exists>e. getCNAMERecord_main subdomain run = Inl e) \<longleftrightarrow>
      Err run \<noteq> None \<and> \<not> Contains (Stderr run) ''status: NXDOMAIN'')
   \<and> (getCNAMERecord_main subdomain run = Inr ''NXDOMAIN'' \<longleftrightarrow>
      (\<exists>msg. Err run = Some msg) \<and> Contains (Stderr run) ''status: NXDOMAIN''
      \<or> Err run = None \<and> TrimSpace (Stdout run) = ''NXDOMAIN'')
   \<and> (getCNAMERecord_main subdomain run = Inr ''No CNAME record'' \<longleftrightarrow>
      Err run = None
      \<and> (TrimSpace (Stdout run) = [] \<or> TrimSpace (Stdout run) = ''No CNAME record''))
   \<and> ((\<exists>t. getCNAMERecord_main subdomain run = Inr t \<and> t \<noteq> ''NXDOMAIN''
          \<and> t \<noteq> ''No CNAME record'') \<longleftrightarrow>
      Err run = None \<and> TrimSpace (Stdout run) \<noteq> []
      \<and> TrimSpace (Stdout run) \<noteq> ''NXDOMAIN''
      \<and> TrimSpace (Stdout run) \<noteq> ''No CNAME record'')
   \<and> (getCNAMERecord_main subdomain run = Inr t \<and> t \<noteq> ''NXDOMAIN''
        \<and> t \<noteq> ''No CNAME record'' \<longrightarrow> t = TrimSpace (Stdout run))
   \<and> length (filter (\<lambda>b. b)
       [\<exists>e. getCNAMERecord_main subdomain run = Inl e,
        getCNAMERecord_main subdomain run = Inr ''NXDOMAIN'',
        getCNAMERecord_main subdomain run = Inr ''No CNAME record'',
        \<exists>t. getCNAMERecord_main subdomain run = Inr t \<and> t \<noteq> ''NXDOMAIN''
            \<and> t \<noteq> ''No CNAME record'']) = 1"
  apply (intro conjI impI)
              apply (erule part002_failed)
             apply (rule part002_error_iff)
            apply (rule part002_nxdomain_iff)
           apply (rule part002_nocname_iff)
          apply (rule part002_found_iff)
         apply (rule part002_exactly_one)
        apply (elim conjE, erule (1) main_failed)
       apply (rule main_error_iff)
      apply (rule main_nxdomain_iff)
     apply (rule main_nocname_iff)
    apply (rule main_found_iff)
   apply (elim conjE, erule (2) main_found_target)
  apply (rule main_exactly_one)
  done

text \<open>
  The theorem at a failed run whose standard error carries the marker (part 002 answers
  the error, the first program of main.go answers \<open>NXDOMAIN\<close>), at a failed run without
  the marker, and at a successful run with an answer.
\<close>

theorem classifier_nxdomain_cases_witness:
  "getCNAMERecord_part002 ''gone.example.com''
      \<lparr>Stdout = [], Stderr = '';; ->>HEADER<<- opcode: QUERY, status: NXDOMAIN, id: 7'',
       Err = Some ''exit status 9''\<rparr>
     = Inl ''error executing dig command for gone.example.com: exit status 9''
   \<and> getCNAMERecord_main ''gone.example.com''
      \<lparr>Stdout = [], Stderr = '';; ->>HEADER<<- opcode: QUERY, status: NXDOMAIN, id: 7'',
       Err = Some ''exit status 9''\<rparr> = Inr ''NXDOMAIN''
   \<and> getCNAMERecord_main ''down.example.com''
      \<lparr>Stdout = [], Stderr = ''connection timed out'', Err = Some ''exit status 9''\<rparr>
     = Inl ''error executing dig command for down.example.com: exit status 9''
   \<and> getCNAMERecord_main ''shop.example.com''
      \<lparr>Stdout = ''shops.example.net.'' @ [CHR 0x0A], Stderr = [], Err = None\<rparr>
     = Inr ''shops.example.net.''"
proof -
  let ?nx = "\<lparr>Stdout = [], Stderr = '';; ->>HEADER<<- opcode: QUERY, status: NXDOMAIN, id: 7'',
       Err = Some ''exit status 9''\<rparr>"
  let ?down = "\<lparr>Stdout = [], Stderr = ''connection timed out'', Err = Some ''exit status 9''\<rparr>"
  let ?ok = "\<lparr>Stdout = ''shops.example.net.'' @ [CHR 0x0A], Stderr = [], Err = None\<rparr>"
  have marker: "Contains (Stderr ?nx) ''status: NXDOMAIN''"
    by code_simp
  have nomarker: "\<not> Contains (Stderr ?down) ''status: NXDOMAIN''"
    by code_simp
  have failed: "Err ?nx = Some ''exit status 9''" "Err ?down = Some ''exit status 9''"
    by simp_all
  have failed_ex: "\<exists>msg. Err ?nx = Some msg"
    by simp
  have a: "getCNAMERecord_part002 ''gone.example.com'' ?nx
      = Inl (digError ''gone.example.com'' ''exit status 9'')"
    by (rule classifier_nxdomain_cases [where run = ?nx and msg = "''exit status 9''"
          and subdomain = "''gone.example.com''", THEN conjunct1, THEN mp, OF failed(1)])
  have b: "getCNAMERecord_main ''gone.example.com'' ?nx = Inr ''NXDOMAIN''"
    by (rule classifier_nxdomain_cases [where run = ?nx
          and subdomain = "''gone.example.com''",
          THEN conjunct2, THEN conjunct2, THEN conjunct2, THEN conjunct2, THEN conjunct2,
          THEN conjunct2, THEN conjunct2, THEN conjunct2, THEN conjunct1, THEN iffD2,
          OF disjI1 [OF conjI [OF failed_ex marker]]])
  have c: "getCNAMERecord_main ''down.example.com'' ?down
      = Inl (digError ''down.example.com'' ''exit status 9'')"
    by (rule classifier_nxdomain_cases [where run = ?down and msg = "''exit status 9''"
          and subdomain = "''down.example.com''",
          THEN conjunct2, THEN conjunct2, THEN conjunct2, THEN conjunct2, THEN conjunct2,
          THEN conjunct2, THEN conjunct1, THEN mp, OF conjI [OF failed(2) nomarker]])
  have trim: "TrimSpace (Stdout ?ok) = ''shops.example.net.''"
    by code_simp
  have ok: "Err ?ok = None \<and> TrimSpace (Stdout ?ok) \<noteq> []
      \<and> TrimSpace (Stdout ?ok) \<noteq> ''NXDOMAIN''
      \<and> TrimSpace (Stdout ?ok) \<noteq> ''No CNAME record''"
    unfolding trim by simp
  from classifier_nxdomain_cases [where run = ?ok and subdomain = "''shop.example.com''",
          THEN conjunct2, THEN conjunct2, THEN conjunct2, THEN conjunct2, THEN conjunct2,
          THEN conjunct2, THEN conjunct2, THEN conjunct2, THEN conjunct2, THEN conjunct2,
          THEN conjunct1, THEN iffD2, OF ok]
  obtain t where t: "getCNAMERecord_main ''shop.example.com'' ?ok = Inr t"
    "t \<noteq> ''NXDOMAIN''" "t \<noteq> ''No CNAME record''"
    by blast
  have "t = TrimSpace (Stdout ?ok)"
    by (rule classifier_nxdomain_cases [where run = ?ok and subdomain = "''shop.example.com''"
          and t = t,
          THEN conjunct2, THEN conjunct2, THEN conjunct2, THEN conjunct2, THEN conjunct2,
          THEN conjunct2, THEN conjunct2, THEN conjunct2, THEN conjunct2, THEN conjunct2,
          THEN conjunct2, THEN conjunct1, THEN mp, OF conjI [OF t(1) conjI [OF t(2) t(3)]]])
  then have d: "getCNAMERecord_main ''shop.example.com'' ?ok = Inr ''shops.example.net.''"
    using t(1) trim by (simp only:)
  from a b c d show ?thesis by (simp only: digError_def append.simps)
qed

text \<open>
  The claim as it was written fails on part 002: a failed run whose standard error holds
  the marker is the error, not NXDOMAIN, and a run that did not fail but holds the marker
  is NXDOMAIN. In the first program of main.go a successful run that prints the text
  \<open>NXDOMAIN\<close> gives the NXDOMAIN result although nothing failed.
\<close>

theorem classifier_nxdomain_counterexample:
  "getCNAMERecord_part002 ''gone.example.com''
      \<lparr>Stdout = [], Stderr = ''status: NXDOMAIN'', Err = Some ''exit status 9''\<rparr>
     = Inl ''error executing dig command for gone.example.com: exit status 9''
   \<and> getCNAMERecord_part002 ''gone.example.com''
      \<lparr>Stdout = [], Stderr = ''status: NXDOMAIN'', Err = None\<rparr>
     = Inr \<lparr>sCNAME = [], Status = ''NXDOMAIN'', Detail = ''Status: NXDOMAIN''\<rparr>
   \<and> getCNAMERecord_main ''odd.example.com''
      \<lparr>Stdout = ''NXDOMAIN'' @ [CHR 0x0A], Stderr = [], Err = None\<rparr>
     = Inr ''NXDOMAIN''"
  by code_simp

lemma main_result_when_run_succeeds:
  "Err run = None \<Longrightarrow> getCNAMERecord_main subdomain run =
     (if TrimSpace (Stdout run) = [] then Inr ''No CNAME record'' else Inr (TrimSpace (Stdout run)))"
  by (simp add: getCNAMERecord_main_def Let_def)

lemma part002_result_when_run_succeeds:
  "Err run = None \<Longrightarrow> \<not> Contains (Stderr run) ''status: NXDOMAIN'' \<Longrightarrow>
   getCNAMERecord_part002 subdomain run =
     (if TrimSpace (Stdout run) = []
      then Inr \<lparr>sCNAME = [], Status = ''NO CNAME'', Detail = ''Status: noerror''\<rparr>
      else Inr \<lparr>sCNAME = TrimSpace (Stdout run), Status = ''CNAME FOUND'', Detail = ''Status: noerror''\<rparr>)"
  by (simp add: getCNAMERecord_part002_def Let_def)

lemma part002_marker_when_run_succeeds:
  "Err run = None \<Longrightarrow> Contains (Stderr run) ''status: NXDOMAIN'' \<Longrightarrow>
   getCNAMERecord_part002 subdomain run =
     Inr \<lparr>sCNAME = [], Status = ''NXDOMAIN'', Detail = ''Status: NXDOMAIN''\<rparr>"
  by (simp add: getCNAMERecord_part002_def Let_def)

text \<open>
  C3, as the code has it. When the run of dig did not fail, the first program of main.go
  returns the no-record result if the trimmed standard output is empty, and the trimmed
  standard output itself otherwise. Part 002 does the same, with the status \<open>NO CNAME\<close>
  or \<open>CNAME FOUND\<close>, provided standard error does not contain \<open>status: NXDOMAIN\<close>; if it
  does, part 002 returns the NXDOMAIN record whatever standard output holds.
\<close>

theorem classifier_success_cases:
  "(Err run = None \<longrightarrow>
      getCNAMERecord_main subdomain run =
        (if TrimSpace (Stdout run) = [] then Inr ''No CNAME record''
         else Inr (TrimSpace (Stdout run))))
   \<and> (Err run = None \<and> \<not> Contains (Stderr run) ''status: NXDOMAIN'' \<longrightarrow>
      getCNAMERecord_part002 subdomain run =
        (if TrimSpace (Stdout run) = []
         then Inr \<lparr>sCNAME = [], Status = ''NO CNAME'', Detail = ''Status: noerror''\<rparr>
         else Inr \<lparr>sCNAME = TrimSpace (Stdout run), Status = ''CNAME FOUND'',
                   Detail = ''Status: noerror''\<rparr>))
   \<and> (Err run = None \<and> Contains (Stderr run) ''status: NXDOMAIN'' \<longrightarrow>
      getCNAMERecord_part002 subdomain run =
        Inr \<lparr>sCNAME = [], Status = ''NXDOMAIN'', Detail = ''Status: NXDOMAIN''\<rparr>)"
  using main_result_when_run_succeeds part002_result_when_run_succeeds
    part002_marker_when_run_succeeds
  by blast

text \<open>
  The theorem at three successful runs: an answer with surrounding white space, an empty
  answer, and (part 002) a standard error with the marker.
\<close>

theorem classifier_success_cases_witness:
  "getCNAMERecord_main ''shop.example.com''
      \<lparr>Stdout = ''  shops.example.net.'' @ [CHR 0x0A], Stderr = [], Err = None\<rparr>
     = Inr ''shops.example.net.''
   \<and> getCNAMERecord_part002 ''shop.example.com''
      \<lparr>Stdout = ''  shops.example.net.'' @ [CHR 0x0A], Stderr = [], Err = None\<rparr>
     = Inr \<lparr>sCNAME = ''shops.example.net.'', Status = ''CNAME FOUND'',
            Detail = ''Status: noerror''\<rparr>
   \<and> getCNAMERecord_main ''bare.example.com''
      \<lparr>Stdout = [CHR 0x0A], Stderr = [], Err = None\<rparr> = Inr ''No CNAME record''
   \<and> getCNAMERecord_part002 ''bare.example.com''
      \<lparr>Stdout = [CHR 0x0A], Stderr = [], Err = None\<rparr>
     = Inr \<lparr>sCNAME = [], Status = ''NO CNAME'', Detail = ''Status: noerror''\<rparr>
   \<and> getCNAMERecord_part002 ''gone.example.com''
      \<lparr>Stdout = [], Stderr = ''status: NXDOMAIN'', Err = None\<rparr>
     = Inr \<lparr>sCNAME = [], Status = ''NXDOMAIN'', Detail = ''Status: NXDOMAIN''\<rparr>"
proof -
  have t1: "TrimSpace (''  shops.example.net.'' @ [CHR 0x0A]) = ''shops.example.net.''"
    by code_simp
  have t2: "TrimSpace [CHR 0x0A] = []"
    by code_simp
  have c0: "\<not> Contains [] ''status: NXDOMAIN''"
    by code_simp
  have c1: "Contains ''status: NXDOMAIN'' ''status: NXDOMAIN''"
    by code_simp
  show ?thesis
    using t1 t2 c0 c1
      classifier_success_cases [of
        "\<lparr>Stdout = ''  shops.example.net.'' @ [CHR 0x0A], Stderr = [], Err = None\<rparr>"
        "''shop.example.com''"]
      classifier_success_cases [of
        "\<lparr>Stdout = [CHR 0x0A], Stderr = [], Err = None\<rparr>" "''bare.example.com''"]
      classifier_success_cases [of
        "\<lparr>Stdout = [], Stderr = ''status: NXDOMAIN'', Err = None\<rparr>" "''gone.example.com''"]
    by simp
qed

text \<open>
  The claim as it was written fails on part 002: the run did not fail and its trimmed
  output is not empty, yet the result is the NXDOMAIN record with an empty CNAME.
\<close>

theorem classifier_success_counterexample:
  "getCNAMERecord_part002 ''shop.example.com''
      \<lparr>Stdout = ''shops.example.net.'' @ [CHR 0x0A],
       Stderr = '';; status: NXDOMAIN'', Err = None\<rparr>
     = Inr \<lparr>sCNAME = [], Status = ''NXDOMAIN'', Detail = ''Status: NXDOMAIN''\<rparr>
   \<and> TrimSpace (''shops.example.net.'' @ [CHR 0x0A]) = ''shops.example.net.''"
  by code_simp

section \<open>The normalizer\<close>

lemma TrimSpace_Nil: "TrimSpace [] = []"
  by (simp add: TrimSpace_def TrimLeftSpace_def TrimRightSpace_def)

lemma TrimSpace_sentinel: "TrimSpace ''No CNAME record'' = ''No CNAME record''"
  by code_simp

lemma getCNAMERecord_trimmed:
  assumes "getCNAMERecord subdomain run = Inr cname"
  shows "TrimSpace cname = cname" and "cname \<noteq> []"
proof -
  have none: "Err run = None"
    using assms by (rule getCNAMERecord_Inr)
  then have c: "cname = (if TrimSpace (Stdout run) = [] then ''No CNAME record''
      else TrimSpace (Stdout run))"
    using assms by (simp add: getCNAMERecord_def Let_def split: if_splits)
  show "TrimSpace cname = cname"
    using c by (simp add: TrimSpace_sentinel TrimSpace_idem)
  show "cname \<noteq> []"
    using c by (simp split: if_splits)
qed

lemma HasPrefix_wildcard: "HasPrefix s ''*.'' \<longleftrightarrow> (\<exists>rest. s = ''*.'' @ rest)"
  by (auto simp: HasPrefix_prefix prefix_def)

lemma extractWildcardDomain_Nil: "extractWildcardDomain [] = []"
  by (simp add: extractWildcardDomain_def TrimSpace_Nil HasPrefix_def)

lemma extractWildcardDomain_sentinel: "extractWildcardDomain ''No CNAME record'' = []"
  by (simp add: extractWildcardDomain_def)

lemma extractWildcardDomain_wildcard:
  assumes "HasPrefix (TrimSpace cname) ''*.''"
  shows "TrimSpace cname = ''*.'' @ extractWildcardDomain cname"
proof -
  from assms obtain rest where r: "TrimSpace cname = ''*.'' @ rest"
    by (auto simp: HasPrefix_wildcard)
  have "cname \<noteq> ''No CNAME record''"
    using r TrimSpace_sentinel by auto
  then show ?thesis using assms r by (simp add: extractWildcardDomain_def)
qed

lemma extractWildcardDomain_plain:
  "cname \<noteq> ''No CNAME record'' \<Longrightarrow> \<not> HasPrefix (TrimSpace cname) ''*.''
     \<Longrightarrow> extractWildcardDomain cname = TrimSpace cname"
  by (simp add: extractWildcardDomain_def)

lemma extractWildcardDomain_keeps_end:
  assumes "cname \<noteq> ''No CNAME record''"
  shows "\<exists>front. (front = [] \<or> front = ''*.'')
           \<and> TrimSpace cname = front @ extractWildcardDomain cname"
proof (cases "HasPrefix (TrimSpace cname) ''*.''")
  case True
  then show ?thesis using extractWildcardDomain_wildcard by blast
next
  case False
  then show ?thesis using assms extractWildcardDomain_plain by auto
qed

text \<open>
  C4, as the code has it. \<^verbatim>\<open>extractWildcardDomain\<close> maps the empty string and the
  no-record text to the empty string. Every other target is first trimmed of surrounding
  white space; if the trimmed target begins with the two characters \<open>*.\<close> the result is
  the trimmed target without those two characters (removed once), otherwise the result is
  the trimmed target. Nothing is ever removed from the end of the trimmed target, so a
  trailing root dot stays. A target that \<^verbatim>\<open>getCNAMERecord\<close> returned is already
  trimmed, so for it the trimmed target is the target itself.
\<close>

theorem extractWildcardDomain_cases:
  "extractWildcardDomain [] = []
   \<and> extractWildcardDomain ''No CNAME record'' = []
   \<and> (HasPrefix (TrimSpace cname) ''*.'' \<longrightarrow>
        TrimSpace cname = ''*.'' @ extractWildcardDomain cname)
   \<and> (cname \<noteq> ''No CNAME record'' \<and> \<not> HasPrefix (TrimSpace cname) ''*.'' \<longrightarrow>
        extractWildcardDomain cname = TrimSpace cname)
   \<and> (cname \<noteq> ''No CNAME record'' \<longrightarrow>
        (\<exists>front. (front = [] \<or> front = ''*.'')
           \<and> TrimSpace cname = front @ extractWildcardDomain cname))
   \<and> (getCNAMERecord subdomain run = Inr cname \<longrightarrow> TrimSpace cname = cname)"
  using extractWildcardDomain_Nil extractWildcardDomain_sentinel
    extractWildcardDomain_wildcard extractWildcardDomain_plain
    extractWildcardDomain_keeps_end getCNAMERecord_trimmed(1)
  by blast

text \<open>
  The theorem at the targets of the specification, at a doubled wildcard label (one is
  removed), at a star without a dot (kept), and at a target with white space around it.
\<close>

theorem extractWildcardDomain_cases_witness:
  "extractWildcardDomain ''*.cdn.vulnerable-host.io'' = ''cdn.vulnerable-host.io''
   \<and> extractWildcardDomain ''cdn.vulnerable-host.io'' = ''cdn.vulnerable-host.io''
   \<and> extractWildcardDomain ''*.*.example.net.'' = ''*.example.net.''
   \<and> extractWildcardDomain ''*cdn.example.net.'' = ''*cdn.example.net.''
   \<and> extractWildcardDomain (''  *.edge.example.net. '' @ [CHR 0x0A]) = ''edge.example.net.''
   \<and> getCNAMERecord ''edge.example.com''
        \<lparr>Stdout = ''  *.edge.example.net. '' @ [CHR 0x0A], Stderr = [], Err = None\<rparr>
       = Inr ''*.edge.example.net.''
   \<and> TrimSpace ''*.edge.example.net.'' = ''*.edge.example.net.''"
proof -
  have t: "TrimSpace ''*.cdn.vulnerable-host.io'' = ''*.cdn.vulnerable-host.io''"
    "TrimSpace ''cdn.vulnerable-host.io'' = ''cdn.vulnerable-host.io''"
    "TrimSpace ''*.*.example.net.'' = ''*.*.example.net.''"
    "TrimSpace ''*cdn.example.net.'' = ''*cdn.example.net.''"
    "TrimSpace (''  *.edge.example.net. '' @ [CHR 0x0A]) = ''*.edge.example.net.''"
    by code_simp+
  have get: "getCNAMERecord ''edge.example.com''
        \<lparr>Stdout = ''  *.edge.example.net. '' @ [CHR 0x0A], Stderr = [], Err = None\<rparr>
       = Inr ''*.edge.example.net.''"
    using t(5) by (simp add: getCNAMERecord_def)
  have trimmed: "TrimSpace ''*.edge.example.net.'' = ''*.edge.example.net.''"
    by (rule extractWildcardDomain_cases [of "''*.edge.example.net.''" "''edge.example.com''"
          "\<lparr>Stdout = ''  *.edge.example.net. '' @ [CHR 0x0A], Stderr = [], Err = None\<rparr>",
          THEN conjunct2, THEN conjunct2, THEN conjunct2, THEN conjunct2, THEN conjunct2,
          THEN mp, OF get])
  have cases: "extractWildcardDomain ''*.cdn.vulnerable-host.io'' = ''cdn.vulnerable-host.io''
   \<and> extractWildcardDomain ''cdn.vulnerable-host.io'' = ''cdn.vulnerable-host.io''
   \<and> extractWildcardDomain ''*.*.example.net.'' = ''*.example.net.''
   \<and> extractWildcardDomain ''*cdn.example.net.'' = ''*cdn.example.net.''
   \<and> extractWildcardDomain (''  *.edge.example.net. '' @ [CHR 0x0A]) = ''edge.example.net.''"
    using t
      extractWildcardDomain_cases [of "''*.cdn.vulnerable-host.io''", THEN conjunct2,
        THEN conjunct2, THEN conjunct1]
      extractWildcardDomain_cases [of "''cdn.vulnerable-host.io''", THEN conjunct2,
        THEN conjunct2, THEN conjunct2, THEN conjunct1]
      extractWildcardDomain_cases [of "''*.*.example.net.''", THEN conjunct2,
        THEN conjunct2, THEN conjunct1]
      extractWildcardDomain_cases [of "''*cdn.example.net.''", THEN conjunct2,
        THEN conjunct2, THEN conjunct2, THEN conjunct1]
      extractWildcardDomain_cases [of "''  *.edge.example.net. '' @ [CHR 0x0A]", THEN conjunct2,
        THEN conjunct2, THEN conjunct1]
    by (simp add: HasPrefix_def)
  from cases get trimmed show ?thesis by (intro conjI) (elim conjE, assumption)+
qed

text \<open>
  The claim as it was written fails where the target has leading white space: the target
  does not begin with \<open>*.\<close>, so the claim gives the trimmed target \<open>*.cdn.example.io\<close>,
  but the code tests the prefix after trimming and removes it.
\<close>

theorem extractWildcardDomain_counterexample:
  "\<not> HasPrefix '' *.cdn.example.io'' ''*.''
   \<and> TrimSpace '' *.cdn.example.io'' = ''*.cdn.example.io''
   \<and> extractWildcardDomain '' *.cdn.example.io'' = ''cdn.example.io''"
  by code_simp

section \<open>The matcher\<close>

lemma matchesAnyPattern_iff:
  "matchesAnyPattern domain patterns \<longleftrightarrow>
     domain \<noteq> [] \<and> (\<exists>p \<in> set patterns. \<exists>before after. domain = before @ p @ after)"
  by (simp add: matchesAnyPattern_def matchesAnyPattern_loop_iff Contains_iff)

lemma matchesAnyPattern_part000_iff:
  "matchesAnyPattern_part000 cname patterns \<longleftrightarrow>
     cname \<noteq> ''No CNAME record''
     \<and> (\<exists>p \<in> set patterns. \<exists>before after. cname = before @ p @ after)"
  by (simp add: matchesAnyPattern_part000_def matchesAnyPattern_part000_loop_iff Contains_iff)

lemma matchesAnyPattern_order:
  "set patterns = set patterns'
     \<Longrightarrow> matchesAnyPattern domain patterns = matchesAnyPattern domain patterns'"
  by (simp add: matchesAnyPattern_iff)

lemma matchesAnyPattern_part000_order:
  "set patterns = set patterns'
     \<Longrightarrow> matchesAnyPattern_part000 cname patterns = matchesAnyPattern_part000 cname patterns'"
  by (simp add: matchesAnyPattern_part000_iff)

text \<open>
  C5, as the code has it. \<^verbatim>\<open>matchesAnyPattern\<close> of part 001 is false for the empty
  domain, and for any other domain it is true exactly when some pattern occurs in the
  domain byte for byte. \<^verbatim>\<open>matchesAnyPattern\<close> of part 000 guards on the no-record text
  instead of the empty string: it is false for \<open>No CNAME record\<close>, and for any other
  string (the empty one too) it is true exactly when some pattern occurs in it. In both,
  only the set of patterns matters, not their order.
\<close>

theorem matcher_substring_cases:
  "matchesAnyPattern [] patterns = False
   \<and> (domain \<noteq> [] \<longrightarrow>
        matchesAnyPattern domain patterns =
          (\<exists>p \<in> set patterns. \<exists>before after. domain = before @ p @ after))
   \<and> (set patterns = set patterns' \<longrightarrow>
        matchesAnyPattern domain patterns = matchesAnyPattern domain patterns')
   \<and> matchesAnyPattern_part000 ''No CNAME record'' patterns = False
   \<and> (domain \<noteq> ''No CNAME record'' \<longrightarrow>
        matchesAnyPattern_part000 domain patterns =
          (\<exists>p \<in> set patterns. \<exists>before after. domain = before @ p @ after))
   \<and> (set patterns = set patterns' \<longrightarrow>
        matchesAnyPattern_part000 domain patterns = matchesAnyPattern_part000 domain patterns')"
proof (intro conjI impI)
  show "matchesAnyPattern [] patterns = False"
    by (simp add: matchesAnyPattern_iff)
  show "matchesAnyPattern_part000 ''No CNAME record'' patterns = False"
    by (simp add: matchesAnyPattern_part000_iff)
  show "matchesAnyPattern domain patterns =
      (\<exists>p \<in> set patterns. \<exists>before after. domain = before @ p @ after)" if "domain \<noteq> []"
    using that by (simp add: matchesAnyPattern_iff)
  show "matchesAnyPattern_part000 domain patterns =
      (\<exists>p \<in> set patterns. \<exists>before after. domain = before @ p @ after)"
    if "domain \<noteq> ''No CNAME record''"
    using that by (simp add: matchesAnyPattern_part000_iff)
  show "matchesAnyPattern domain patterns = matchesAnyPattern domain patterns'"
    if "set patterns = set patterns'"
    using that by (rule matchesAnyPattern_order)
  show "matchesAnyPattern_part000 domain patterns = matchesAnyPattern_part000 domain patterns'"
    if "set patterns = set patterns'"
    using that by (rule matchesAnyPattern_part000_order)
qed

text \<open>
  The theorem at the examples of the specification; the match is on bytes, so a pattern
  in another letter case does not match.
\<close>

theorem matcher_substring_cases_witness:
  "matchesAnyPattern ''cdn.vulnerable-host.io'' [''vulnerable-host.io'']
   \<and> matchesAnyPattern ''cdn.vulnerable-host.io'' [''safe-host.io'', ''vulnerable-host.io'']
       = matchesAnyPattern ''cdn.vulnerable-host.io'' [''vulnerable-host.io'', ''safe-host.io'']
   \<and> \<not> matchesAnyPattern [] [''vulnerable-host.io'']
   \<and> matchesAnyPattern_part000 ''cdn.vulnerable-host.io'' [''vulnerable-host.io'']
   \<and> \<not> matchesAnyPattern_part000 ''No CNAME record'' [''CNAME'']
   \<and> \<not> matchesAnyPattern ''cdn.safe-host.io'' [''vulnerable-host.io'']
   \<and> \<not> matchesAnyPattern ''cdn.VULNERABLE-HOST.io'' [''vulnerable-host.io'']"
proof -
  have split: "''cdn.vulnerable-host.io'' = ''cdn.'' @ ''vulnerable-host.io'' @ []"
    by simp
  have found: "\<exists>p \<in> set [''vulnerable-host.io''].
      \<exists>before after. ''cdn.vulnerable-host.io'' = before @ p @ after"
    using split by (metis list.set_intros(1))
  have sets: "set [''safe-host.io'', ''vulnerable-host.io'']
      = set [''vulnerable-host.io'', ''safe-host.io'']"
    by auto
  have other: "\<not> matchesAnyPattern ''cdn.safe-host.io'' [''vulnerable-host.io'']"
    "\<not> matchesAnyPattern ''cdn.VULNERABLE-HOST.io'' [''vulnerable-host.io'']"
    by code_simp+
  have a: "matchesAnyPattern ''cdn.vulnerable-host.io'' [''vulnerable-host.io'']"
    using found
      matcher_substring_cases [of "[''vulnerable-host.io'']" "''cdn.vulnerable-host.io''"
        "[''vulnerable-host.io'']"]
    by simp
  have b: "matchesAnyPattern_part000 ''cdn.vulnerable-host.io'' [''vulnerable-host.io'']"
    using found
      matcher_substring_cases [of "[''vulnerable-host.io'']" "''cdn.vulnerable-host.io''"
        "[''vulnerable-host.io'']"]
    by simp
  have c: "matchesAnyPattern ''cdn.vulnerable-host.io'' [''safe-host.io'', ''vulnerable-host.io'']
       = matchesAnyPattern ''cdn.vulnerable-host.io'' [''vulnerable-host.io'', ''safe-host.io'']"
    using sets
      matcher_substring_cases [of "[''safe-host.io'', ''vulnerable-host.io'']"
        "''cdn.vulnerable-host.io''" "[''vulnerable-host.io'', ''safe-host.io'']"]
    by blast
  have d: "\<not> matchesAnyPattern [] [''vulnerable-host.io'']"
    "\<not> matchesAnyPattern_part000 ''No CNAME record'' [''CNAME'']"
    using matcher_substring_cases [of "[''vulnerable-host.io'']" "[]" "[]"]
      matcher_substring_cases [of "[''CNAME'']" "[]" "[]"]
    by blast+
  show ?thesis using a b c d other by blast
qed

text \<open>
  The claim as it was written fails on part 000: \<open>CNAME\<close> occurs in the non-empty string
  \<open>No CNAME record\<close> and the result is false, and the empty string matches the empty
  pattern.
\<close>

theorem matcher_substring_counterexample:
  "Contains ''No CNAME record'' ''CNAME''
   \<and> matchesAnyPattern_part000 ''No CNAME record'' [''CNAME''] = False
   \<and> matchesAnyPattern_part000 [] [[]] = True"
  by code_simp

section \<open>The scan: one failed query ends it\<close>

lemma main_loop_append:
  "checkCNAMERecords_main_loop dig (xs @ ys) results w =
     (case checkCNAMERecords_main_loop dig xs results w of
        (Inl err, w') \<Rightarrow> (Inl err, w')
      | (Inr results', w') \<Rightarrow> checkCNAMERecords_main_loop dig ys results' w')"
  by (induction xs arbitrary: results w) (auto split: prod.splits sum.splits)

lemma loop_append:
  "checkCNAMERecords_loop dig (xs @ ys) patterns results w =
     (case checkCNAMERecords_loop dig xs patterns results w of
        (Inl err, w') \<Rightarrow> (Inl err, w')
      | (Inr results', w') \<Rightarrow> checkCNAMERecords_loop dig ys patterns results' w')"
  by (induction xs arbitrary: results w) (auto split: prod.splits sum.splits)

lemma main_scan_aborts:
  assumes "checkCNAMERecords_main dig before w = (Inr seen, w1)"
    and "dig subdomain w1 = (run, w2)"
    and "getCNAMERecord_main subdomain run = Inl err"
  shows "checkCNAMERecords_main dig (before @ subdomain # after) w = (Inl err, w2)"
proof -
  have "checkCNAMERecords_main_loop dig before Map.empty w = (Inr seen, w1)"
    using assms(1) by (simp only: checkCNAMERecords_main_def)
  moreover have "checkCNAMERecords_main_loop dig (subdomain # after) seen w1 = (Inl err, w2)"
    using assms(2,3) by simp
  ultimately show ?thesis
    by (simp only: checkCNAMERecords_main_def main_loop_append prod.case sum.case)
qed


lemma scan_aborts:
  assumes "checkCNAMERecords dig before patterns w = (Inr seen, w1)"
    and "dig subdomain w1 = (run, w2)"
    and "getCNAMERecord subdomain run = Inl err"
  shows "checkCNAMERecords dig (before @ subdomain # after) patterns w = (Inl err, w2)"
proof -
  have "checkCNAMERecords_loop dig before patterns Map.empty w = (Inr seen, w1)"
    using assms(1) by (simp only: checkCNAMERecords_def)
  moreover have "checkCNAMERecords_loop dig (subdomain # after) patterns seen w1 = (Inl err, w2)"
    using assms(2,3) by simp
  ultimately show ?thesis
    by (simp only: checkCNAMERecords_def loop_append prod.case sum.case)
qed

lemma main_loop_stateless_fails:
  "\<exists>s \<in> set subdomains. isl (getCNAMERecord_main s (answer s))
     \<Longrightarrow> isl (fst (checkCNAMERecords_main_loop (\<lambda>s v. (answer s, v)) subdomains results w))"
  by (induction subdomains arbitrary: results w) (auto split: prod.splits sum.splits)

lemma loop_stateless_fails:
  "\<exists>s \<in> set subdomains. isl (getCNAMERecord s (answer s))
     \<Longrightarrow> isl (fst (checkCNAMERecords_loop (\<lambda>s v. (answer s, v)) subdomains patterns results w))"
  by (induction subdomains arbitrary: results w) (auto split: prod.splits sum.splits simp: Let_def)

text \<open>
  C2. In the first program of main.go and in part 001 alike: when the scan of the
  subdomains before some subdomain went through and the query for that subdomain is the
  query error, the scan of the whole list returns that error and no result map, whatever
  was gathered before and whatever follows (the first two parts). For a resolver whose
  answer depends on the name only, a list that holds any subdomain whose query is the
  error makes the scan fail (the last two parts).
\<close>

theorem scan_aborts_on_query_error:
  "(checkCNAMERecords_main dig before w = (Inr seen, w1) \<and> dig subdomain w1 = (run, w2)
      \<and> getCNAMERecord_main subdomain run = Inl err
      \<longrightarrow> checkCNAMERecords_main dig (before @ subdomain # after) w = (Inl err, w2))
   \<and> (checkCNAMERecords dig before patterns w = (Inr seen', w1) \<and> dig subdomain w1 = (run, w2)
      \<and> getCNAMERecord subdomain run = Inl err'
      \<longrightarrow> checkCNAMERecords dig (before @ subdomain # after) patterns w = (Inl err', w2))
   \<and> ((\<exists>s \<in> set subdomains. isl (getCNAMERecord_main s (answer s)))
      \<longrightarrow> isl (fst (checkCNAMERecords_main (\<lambda>s v. (answer s, v)) subdomains w0)))
   \<and> ((\<exists>s \<in> set subdomains. isl (getCNAMERecord s (answer s)))
      \<longrightarrow> isl (fst (checkCNAMERecords (\<lambda>s v. (answer s, v)) subdomains patterns w0)))"
proof (intro conjI impI)
  assume "checkCNAMERecords_main dig before w = (Inr seen, w1) \<and> dig subdomain w1 = (run, w2)
      \<and> getCNAMERecord_main subdomain run = Inl err"
  then show "checkCNAMERecords_main dig (before @ subdomain # after) w = (Inl err, w2)"
    by (elim conjE) (rule main_scan_aborts)
next
  assume "checkCNAMERecords dig before patterns w = (Inr seen', w1) \<and> dig subdomain w1 = (run, w2)
      \<and> getCNAMERecord subdomain run = Inl err'"
  then show "checkCNAMERecords dig (before @ subdomain # after) patterns w = (Inl err', w2)"
    by (elim conjE) (rule scan_aborts)
next
  assume "\<exists>s \<in> set subdomains. isl (getCNAMERecord_main s (answer s))"
  then show "isl (fst (checkCNAMERecords_main (\<lambda>s v. (answer s, v)) subdomains w0))"
    unfolding checkCNAMERecords_main_def by (rule main_loop_stateless_fails)
next
  assume "\<exists>s \<in> set subdomains. isl (getCNAMERecord s (answer s))"
  then show "isl (fst (checkCNAMERecords (\<lambda>s v. (answer s, v)) subdomains patterns w0))"
    unfolding checkCNAMERecords_def by (rule loop_stateless_fails)
qed


text \<open>
  The theorem at a list of three subdomains whose second query fails: the scan returns
  the error of the second query, the record of the first is gone, and the third is never
  asked (its answer is still in the script).
\<close>

theorem scan_aborts_on_query_error_witness:
  "checkCNAMERecords replayDig
      [''www.example.com'', ''down.example.com'', ''api.example.com'']
      [''vulnerable-host.io'']
      [\<lparr>Stdout = ''cdn.vulnerable-host.io.'' @ [CHR 0x0A], Stderr = [], Err = None\<rparr>,
       \<lparr>Stdout = [], Stderr = ''connection timed out'', Err = Some ''exit status 9''\<rparr>,
       \<lparr>Stdout = ''api.example.net.'' @ [CHR 0x0A], Stderr = [], Err = None\<rparr>]
     = (Inl ''error executing dig command for down.example.com: exit status 9'',
        [\<lparr>Stdout = ''api.example.net.'' @ [CHR 0x0A], Stderr = [], Err = None\<rparr>])
   \<and> checkCNAMERecords_main replayDig
      [''www.example.com'', ''down.example.com'', ''api.example.com'']
      [\<lparr>Stdout = ''cdn.vulnerable-host.io.'' @ [CHR 0x0A], Stderr = [], Err = None\<rparr>,
       \<lparr>Stdout = [], Stderr = ''connection timed out'', Err = Some ''exit status 9''\<rparr>,
       \<lparr>Stdout = ''api.example.net.'' @ [CHR 0x0A], Stderr = [], Err = None\<rparr>]
     = (Inl ''error executing dig command for down.example.com: exit status 9'',
        [\<lparr>Stdout = ''api.example.net.'' @ [CHR 0x0A], Stderr = [], Err = None\<rparr>])
   \<and> isl (fst (checkCNAMERecords
        (\<lambda>s v. (if s = ''down.example.com''
                 then \<lparr>Stdout = [], Stderr = ''connection timed out'',
                        Err = Some ''exit status 9''\<rparr>
                 else \<lparr>Stdout = ''cdn.vulnerable-host.io.'' @ [CHR 0x0A], Stderr = [],
                        Err = None\<rparr>, v))
        [''www.example.com'', ''down.example.com'', ''api.example.com'']
        [''vulnerable-host.io''] (0::nat)))
   \<and> isl (fst (checkCNAMERecords_main
        (\<lambda>s v. (if s = ''down.example.com''
                 then \<lparr>Stdout = [], Stderr = ''connection timed out'',
                        Err = Some ''exit status 9''\<rparr>
                 else \<lparr>Stdout = ''cdn.vulnerable-host.io.'' @ [CHR 0x0A], Stderr = [],
                        Err = None\<rparr>, v))
        [''www.example.com'', ''down.example.com'', ''api.example.com''] (0::nat)))"
proof -
  let ?r1 = "\<lparr>Stdout = ''cdn.vulnerable-host.io.'' @ [CHR 0x0A], Stderr = [], Err = None\<rparr>"
  let ?r2 = "\<lparr>Stdout = [], Stderr = ''connection timed out'', Err = Some ''exit status 9''\<rparr>"
  let ?r3 = "\<lparr>Stdout = ''api.example.net.'' @ [CHR 0x0A], Stderr = [], Err = None\<rparr>"
  let ?e = "''error executing dig command for down.example.com: exit status 9''"
  let ?seen = "[''www.example.com'' \<mapsto> \<lparr>CNAME = ''cdn.vulnerable-host.io.'',
          IsVulnerable = matchesAnyPattern (extractWildcardDomain ''cdn.vulnerable-host.io.'')
            [''vulnerable-host.io'']\<rparr>]"
  let ?seen_main = "[''www.example.com'' \<mapsto> ''cdn.vulnerable-host.io.'']"
  have trim: "TrimSpace (''cdn.vulnerable-host.io.'' @ [CHR 0x0A]) = ''cdn.vulnerable-host.io.''"
    by code_simp
  have nomark: "\<not> Contains ''connection timed out'' ''status: NXDOMAIN''"
    by code_simp
  have get1: "getCNAMERecord ''www.example.com'' ?r1 = Inr ''cdn.vulnerable-host.io.''"
    using trim by (simp add: getCNAMERecord_def)
  have get1_main: "getCNAMERecord_main ''www.example.com'' ?r1 = Inr ''cdn.vulnerable-host.io.''"
    using trim by (simp add: getCNAMERecord_main_def)
  have first: "checkCNAMERecords replayDig [''www.example.com''] [''vulnerable-host.io'']
      [?r1, ?r2, ?r3] = (Inr ?seen, [?r2, ?r3])"
    by (simp only: checkCNAMERecords_def checkCNAMERecords_loop.simps replayDig.simps
          prod.case get1 sum.case Let_def)
  have first_main: "checkCNAMERecords_main replayDig [''www.example.com''] [?r1, ?r2, ?r3]
    = (Inr ?seen_main, [?r2, ?r3])"
    by (simp only: checkCNAMERecords_main_def checkCNAMERecords_main_loop.simps
          replayDig.simps prod.case get1_main sum.case)
  have run: "replayDig ''down.example.com'' [?r2, ?r3] = (?r2, [?r3])"
    by (simp only: replayDig.simps)
  have err: "getCNAMERecord ''down.example.com'' ?r2 = Inl ?e"
    by (simp add: getCNAMERecord_def digError_def)
  have err_main: "getCNAMERecord_main ''down.example.com'' ?r2 = Inl ?e"
    using nomark by (simp add: getCNAMERecord_main_def digError_def)
  note inst = scan_aborts_on_query_error [of replayDig "[''www.example.com'']" "[?r1, ?r2, ?r3]"
        ?seen_main "[?r2, ?r3]" "''down.example.com''" ?r2 "[?r3]" ?e
        "[''api.example.com'']" "[''vulnerable-host.io'']" ?seen ?e "[]" "\<lambda>s. ?r1"]
  have a: "checkCNAMERecords_main replayDig
      ([''www.example.com''] @ ''down.example.com'' # [''api.example.com'']) [?r1, ?r2, ?r3]
      = (Inl ?e, [?r3])"
    by (rule inst [THEN conjunct1, THEN mp, OF conjI [OF first_main conjI [OF run err_main]]])
  have b: "checkCNAMERecords replayDig
      ([''www.example.com''] @ ''down.example.com'' # [''api.example.com''])
      [''vulnerable-host.io''] [?r1, ?r2, ?r3] = (Inl ?e, [?r3])"
    by (rule inst [THEN conjunct2, THEN conjunct1, THEN mp,
          OF conjI [OF first conjI [OF run err]]])
  let ?subs = "[''www.example.com'', ''down.example.com'', ''api.example.com'']"
  let ?answer = "\<lambda>s. if s = ''down.example.com'' then ?r2 else ?r1"
  have bad: "\<exists>s \<in> set ?subs. isl (getCNAMERecord s (?answer s))"
    by (rule bexI [of _ "''down.example.com''"]) (simp_all add: err)
  have bad_main: "\<exists>s \<in> set ?subs. isl (getCNAMERecord_main s (?answer s))"
    by (rule bexI [of _ "''down.example.com''"]) (simp_all add: err_main)
  note inst' = scan_aborts_on_query_error [of _ _ _ _ _ _ _ _ _ _ "[''vulnerable-host.io'']"
      _ _ ?subs ?answer "0::nat"]
  have c: "isl (fst (checkCNAMERecords_main (\<lambda>s v. (?answer s, v)) ?subs (0::nat)))"
    by (rule inst' [THEN conjunct2, THEN conjunct2, THEN conjunct1, THEN mp, OF bad_main])
  have d: "isl (fst (checkCNAMERecords (\<lambda>s v. (?answer s, v)) ?subs
      [''vulnerable-host.io''] (0::nat)))"
    by (rule inst' [THEN conjunct2, THEN conjunct2, THEN conjunct2, THEN mp, OF bad])
  have a': "checkCNAMERecords_main replayDig ?subs [?r1, ?r2, ?r3] = (Inl ?e, [?r3])"
    using a by (simp only: append.simps)
  have b': "checkCNAMERecords replayDig ?subs [''vulnerable-host.io''] [?r1, ?r2, ?r3]
      = (Inl ?e, [?r3])"
    using b by (simp only: append.simps)
  from b' a' d c show ?thesis by (intro conjI)
qed

section \<open>The verdict of a record\<close>

lemma loop_verdict:
  "checkCNAMERecords_loop dig subdomains patterns results w = (Inr results', w')
     \<Longrightarrow> (\<And>s r. results s = Some r \<Longrightarrow>
            IsVulnerable r = matchesAnyPattern (extractWildcardDomain (CNAME r)) patterns
            \<and> (\<exists>run. Err run = None \<and> getCNAMERecord s run = Inr (CNAME r)))
     \<Longrightarrow> results' s = Some r
     \<Longrightarrow> IsVulnerable r = matchesAnyPattern (extractWildcardDomain (CNAME r)) patterns
         \<and> (\<exists>run. Err run = None \<and> getCNAMERecord s run = Inr (CNAME r))"
proof (induction subdomains arbitrary: results w)
  case Nil
  then show ?case by simp
next
  case (Cons a rest)
  obtain run v where d: "dig a w = (run, v)" by (cases "dig a w")
  from Cons.prems(1) d obtain cname where c: "getCNAMERecord a run = Inr cname"
    by (cases "getCNAMERecord a run") auto
  let ?m = "results(a \<mapsto> \<lparr>CNAME = cname,
      IsVulnerable = matchesAnyPattern (extractWildcardDomain cname) patterns\<rparr>)"
  have run: "checkCNAMERecords_loop dig rest patterns ?m v = (Inr results', w')"
    using Cons.prems(1) d c by (simp add: Let_def)
  have inv: "IsVulnerable r = matchesAnyPattern (extractWildcardDomain (CNAME r)) patterns
            \<and> (\<exists>run. Err run = None \<and> getCNAMERecord s run = Inr (CNAME r))"
    if "?m s = Some r" for s r
  proof (cases "s = a")
    case True
    then have "r = \<lparr>CNAME = cname,
      IsVulnerable = matchesAnyPattern (extractWildcardDomain cname) patterns\<rparr>"
      using that by simp
    then show ?thesis using c True getCNAMERecord_Inr by auto
  next
    case False
    then have "results s = Some r" using that by simp
    then show ?thesis by (rule Cons.prems(2))
  qed
  show ?case by (rule Cons.IH [OF run inv Cons.prems(3)])
qed

lemma part000_loop_verdict:
  "checkCNAMERecords_part000_loop dig subdomains patterns results w = (Inr results', w')
     \<Longrightarrow> (\<And>s r. results s = Some r \<Longrightarrow>
            IsVulnerable r = matchesAnyPattern_part000 (CNAME r) patterns
            \<and> (\<exists>run. Err run = None \<and> getCNAMERecord s run = Inr (CNAME r)))
     \<Longrightarrow> results' s = Some r
     \<Longrightarrow> IsVulnerable r = matchesAnyPattern_part000 (CNAME r) patterns
         \<and> (\<exists>run. Err run = None \<and> getCNAMERecord s run = Inr (CNAME r))"
proof (induction subdomains arbitrary: results w)
  case Nil
  then show ?case by simp
next
  case (Cons a rest)
  obtain run v where d: "dig a w = (run, v)" by (cases "dig a w")
  from Cons.prems(1) d obtain cname where c: "getCNAMERecord a run = Inr cname"
    by (cases "getCNAMERecord a run") auto
  let ?m = "results(a \<mapsto> \<lparr>CNAME = cname,
      IsVulnerable = matchesAnyPattern_part000 cname patterns\<rparr>)"
  have run: "checkCNAMERecords_part000_loop dig rest patterns ?m v = (Inr results', w')"
    using Cons.prems(1) d c by (simp add: Let_def)
  have inv: "IsVulnerable r = matchesAnyPattern_part000 (CNAME r) patterns
            \<and> (\<exists>run. Err run = None \<and> getCNAMERecord s run = Inr (CNAME r))"
    if "?m s = Some r" for s r
  proof (cases "s = a")
    case True
    then have "r = \<lparr>CNAME = cname,
      IsVulnerable = matchesAnyPattern_part000 cname patterns\<rparr>"
      using that by simp
    then show ?thesis using c True getCNAMERecord_Inr by auto
  next
    case False
    then have "results s = Some r" using that by simp
    then show ?thesis by (rule Cons.prems(2))
  qed
  show ?case by (rule Cons.IH [OF run inv Cons.prems(3)])
qed

lemma scan_verdict:
  assumes "checkCNAMERecords dig subdomains patterns w = (Inr results, w')"
    and "results subdomain = Some record"
  shows "IsVulnerable record = matchesAnyPattern (extractWildcardDomain (CNAME record)) patterns"
    and "\<exists>run. Err run = None \<and> getCNAMERecord subdomain run = Inr (CNAME record)"
proof -
  have run: "checkCNAMERecords_loop dig subdomains patterns Map.empty w = (Inr results, w')"
    using assms(1) by (simp only: checkCNAMERecords_def)
  have both: "IsVulnerable record
        = matchesAnyPattern (extractWildcardDomain (CNAME record)) patterns
      \<and> (\<exists>run. Err run = None \<and> getCNAMERecord subdomain run = Inr (CNAME record))"
    by (rule loop_verdict [OF run _ assms(2)]) simp
  show "IsVulnerable record = matchesAnyPattern (extractWildcardDomain (CNAME record)) patterns"
    using both by (rule conjunct1)
  show "\<exists>run. Err run = None \<and> getCNAMERecord subdomain run = Inr (CNAME record)"
    using both by (rule conjunct2)
qed

lemma part000_scan_verdict:
  assumes "checkCNAMERecords_part000 dig subdomains patterns w = (Inr results, w')"
    and "results subdomain = Some record"
  shows "IsVulnerable record = matchesAnyPattern_part000 (CNAME record) patterns"
    and "\<exists>run. Err run = None \<and> getCNAMERecord subdomain run = Inr (CNAME record)"
proof -
  have run: "checkCNAMERecords_part000_loop dig subdomains patterns Map.empty w
      = (Inr results, w')"
    using assms(1) by (simp only: checkCNAMERecords_part000_def)
  have both: "IsVulnerable record = matchesAnyPattern_part000 (CNAME record) patterns
      \<and> (\<exists>run. Err run = None \<and> getCNAMERecord subdomain run = Inr (CNAME record))"
    by (rule part000_loop_verdict [OF run _ assms(2)]) simp
  show "IsVulnerable record = matchesAnyPattern_part000 (CNAME record) patterns"
    using both by (rule conjunct1)
  show "\<exists>run. Err run = None \<and> getCNAMERecord subdomain run = Inr (CNAME record)"
    using both by (rule conjunct2)
qed

lemma extractWildcardDomain_bare_wildcard: "extractWildcardDomain ''*.'' = []"
  by code_simp

text \<open>
  C10. The target \<open>*.\<close> normalizes to the empty string, and a target whose normal form is
  empty never matches, whatever the patterns are: the guard of \<^verbatim>\<open>matchesAnyPattern\<close>
  answers before any pattern is tried. So a record of a successful scan whose CNAME has
  an empty normal form is never marked vulnerable.
\<close>

theorem empty_normal_form_never_vulnerable:
  "extractWildcardDomain ''*.'' = []
   \<and> \<not> matchesAnyPattern (extractWildcardDomain ''*.'') patterns
   \<and> (extractWildcardDomain cname = [] \<longrightarrow>
        \<not> matchesAnyPattern (extractWildcardDomain cname) patterns)
   \<and> (checkCNAMERecords dig subdomains patterns w = (Inr results, w')
        \<and> results subdomain = Some record \<and> extractWildcardDomain (CNAME record) = []
        \<longrightarrow> \<not> IsVulnerable record)"
proof (intro conjI impI)
  show "extractWildcardDomain ''*.'' = []"
    by (rule extractWildcardDomain_bare_wildcard)
  show "\<not> matchesAnyPattern (extractWildcardDomain ''*.'') patterns"
    by (simp add: extractWildcardDomain_bare_wildcard matchesAnyPattern_iff)
  show "\<not> matchesAnyPattern (extractWildcardDomain cname) patterns"
    if "extractWildcardDomain cname = []"
    using that by (simp add: matchesAnyPattern_iff)
  assume a: "checkCNAMERecords dig subdomains patterns w = (Inr results, w')
        \<and> results subdomain = Some record \<and> extractWildcardDomain (CNAME record) = []"
  then have scan: "checkCNAMERecords dig subdomains patterns w = (Inr results, w')"
    and look: "results subdomain = Some record"
    and empty: "extractWildcardDomain (CNAME record) = []"
    by blast+
  show "\<not> IsVulnerable record"
    using scan_verdict(1) [OF scan look] empty by (simp add: matchesAnyPattern_iff)
qed

text \<open>
  The theorem at the target \<open>*.\<close> with the empty pattern as the only pattern. The empty
  pattern occurs in the empty string (\<open>Contains [] []\<close>), so it is the guard alone that
  keeps the record unmarked.
\<close>

theorem empty_normal_form_never_vulnerable_witness:
  "Contains [] []
   \<and> (\<exists>results script.
     checkCNAMERecords replayDig [''any.example.com''] [[]]
       [\<lparr>Stdout = ''*.'' @ [CHR 0x0A], Stderr = [], Err = None\<rparr>] = (Inr results, script)
     \<and> (\<exists>record. results ''any.example.com'' = Some record
           \<and> CNAME record = ''*.'' \<and> \<not> IsVulnerable record))"
proof -
  let ?r1 = "\<lparr>Stdout = ''*.'' @ [CHR 0x0A], Stderr = [], Err = None\<rparr>"
  let ?rec = "\<lparr>CNAME = ''*.'',
      IsVulnerable = matchesAnyPattern (extractWildcardDomain ''*.'') [[]]\<rparr>"
  let ?m = "[''any.example.com'' \<mapsto> ?rec]"
  have trim: "TrimSpace (''*.'' @ [CHR 0x0A]) = ''*.''"
    by code_simp
  have get1: "getCNAMERecord ''any.example.com'' ?r1 = Inr ''*.''"
    using trim by (simp add: getCNAMERecord_def)
  have scan: "checkCNAMERecords replayDig [''any.example.com''] [[]] [?r1] = (Inr ?m, [])"
    by (simp only: checkCNAMERecords_def checkCNAMERecords_loop.simps replayDig.simps
          prod.case get1 sum.case Let_def)
  have look: "?m ''any.example.com'' = Some ?rec"
    by simp
  have cname: "CNAME ?rec = ''*.''"
    by simp
  have empty: "extractWildcardDomain (CNAME ?rec) = []"
    by (simp add: extractWildcardDomain_bare_wildcard)
  have "\<not> IsVulnerable ?rec"
    by (rule empty_normal_form_never_vulnerable [of "[[]]" "[]" replayDig
          "[''any.example.com'']" "[?r1]" ?m "[]" "''any.example.com''" ?rec,
          THEN conjunct2, THEN conjunct2, THEN conjunct2, THEN mp,
          OF conjI [OF scan conjI [OF look empty]]])
  moreover have "Contains [] []"
    by simp
  ultimately show ?thesis using scan look cname by blast
qed

section \<open>The scan: the last occurrence of a subdomain wins\<close>

lemma main_loop_other_key:
  "checkCNAMERecords_main_loop dig ys results w = (Inr results', w') \<Longrightarrow> s \<notin> set ys
     \<Longrightarrow> results' s = results s"
  by (induction ys arbitrary: results w) (auto split: prod.splits sum.splits)

lemma loop_other_key:
  "checkCNAMERecords_loop dig ys patterns results w = (Inr results', w') \<Longrightarrow> s \<notin> set ys
     \<Longrightarrow> results' s = results s"
  by (induction ys arbitrary: results w) (auto split: prod.splits sum.splits simp: Let_def)

lemma main_loop_dom:
  "checkCNAMERecords_main_loop dig ys results w = (Inr results', w')
     \<Longrightarrow> dom results' = dom results \<union> set ys"
  by (induction ys arbitrary: results w) (auto split: prod.splits sum.splits)

lemma loop_dom:
  "checkCNAMERecords_loop dig ys patterns results w = (Inr results', w')
     \<Longrightarrow> dom results' = dom results \<union> set ys"
  by (induction ys arbitrary: results w) (auto split: prod.splits sum.splits simp: Let_def)

lemma main_scan_last_write:
  assumes before: "checkCNAMERecords_main dig before w = (Inr seen, w1)"
    and run: "dig subdomain w1 = (run, w2)"
    and cname: "getCNAMERecord_main subdomain run = Inr cname"
    and last: "subdomain \<notin> set after"
    and whole: "checkCNAMERecords_main dig (before @ subdomain # after) w = (Inr results, w3)"
  shows "results subdomain = Some cname"
proof -
  have "checkCNAMERecords_main_loop dig before Map.empty w = (Inr seen, w1)"
    using before by (simp only: checkCNAMERecords_main_def)
  then have "checkCNAMERecords_main_loop dig (before @ subdomain # after) Map.empty w
      = checkCNAMERecords_main_loop dig (subdomain # after) seen w1"
    by (simp only: main_loop_append prod.case sum.case)
  also have "\<dots> = checkCNAMERecords_main_loop dig after (seen(subdomain \<mapsto> cname)) w2"
    using run cname by simp
  finally have "checkCNAMERecords_main_loop dig after (seen(subdomain \<mapsto> cname)) w2
      = (Inr results, w3)"
    using whole by (simp only: checkCNAMERecords_main_def)
  then have "results subdomain = (seen(subdomain \<mapsto> cname)) subdomain"
    using last by (rule main_loop_other_key)
  then show ?thesis by simp
qed

lemma scan_last_write:
  assumes before: "checkCNAMERecords dig before patterns w = (Inr seen, w1)"
    and run: "dig subdomain w1 = (run, w2)"
    and cname: "getCNAMERecord subdomain run = Inr cname"
    and last: "subdomain \<notin> set after"
    and whole: "checkCNAMERecords dig (before @ subdomain # after) patterns w
      = (Inr results, w3)"
  shows "results subdomain = Some \<lparr>CNAME = cname,
      IsVulnerable = matchesAnyPattern (extractWildcardDomain cname) patterns\<rparr>"
proof -
  let ?rec = "\<lparr>CNAME = cname,
      IsVulnerable = matchesAnyPattern (extractWildcardDomain cname) patterns\<rparr>"
  have "checkCNAMERecords_loop dig before patterns Map.empty w = (Inr seen, w1)"
    using before by (simp only: checkCNAMERecords_def)
  then have "checkCNAMERecords_loop dig (before @ subdomain # after) patterns Map.empty w
      = checkCNAMERecords_loop dig (subdomain # after) patterns seen w1"
    by (simp only: loop_append prod.case sum.case)
  also have "\<dots> = checkCNAMERecords_loop dig after patterns (seen(subdomain \<mapsto> ?rec)) w2"
    using run cname by (simp add: Let_def)
  finally have "checkCNAMERecords_loop dig after patterns (seen(subdomain \<mapsto> ?rec)) w2
      = (Inr results, w3)"
    using whole by (simp only: checkCNAMERecords_def)
  then have "results subdomain = (seen(subdomain \<mapsto> ?rec)) subdomain"
    using last by (rule loop_other_key)
  then show ?thesis by simp
qed

lemma main_scan_dom:
  "checkCNAMERecords_main dig subdomains w = (Inr results, w') \<Longrightarrow> dom results = set subdomains"
  unfolding checkCNAMERecords_main_def by (drule main_loop_dom) simp

lemma scan_dom:
  "checkCNAMERecords dig subdomains patterns w = (Inr results, w')
     \<Longrightarrow> dom results = set subdomains"
  unfolding checkCNAMERecords_def by (drule loop_dom) simp

text \<open>
  C7. Split the input at the last occurrence of a subdomain: the subdomains before it,
  the subdomain, and the subdomains after it, none of which is the subdomain. When the
  scan succeeds, the result maps the subdomain to the record made from the run of dig for
  that last occurrence, whether or not the subdomain also occurs before, and the result
  has exactly one entry for each distinct subdomain of the input. This holds for the scan
  of part 001 and for the scan of the first program of main.go.
\<close>

theorem last_occurrence_wins:
  "(checkCNAMERecords dig before patterns w = (Inr seen, w1) \<and> dig subdomain w1 = (run, w2)
      \<and> getCNAMERecord subdomain run = Inr cname \<and> subdomain \<notin> set after
      \<and> checkCNAMERecords dig (before @ subdomain # after) patterns w = (Inr results, w3)
      \<longrightarrow> results subdomain = Some \<lparr>CNAME = cname,
             IsVulnerable = matchesAnyPattern (extractWildcardDomain cname) patterns\<rparr>
          \<and> dom results = set (before @ subdomain # after))
   \<and> (checkCNAMERecords_main dig before w = (Inr seen_main, w1) \<and> dig subdomain w1 = (run, w2)
      \<and> getCNAMERecord_main subdomain run = Inr cname' \<and> subdomain \<notin> set after
      \<and> checkCNAMERecords_main dig (before @ subdomain # after) w = (Inr results_main, w3)
      \<longrightarrow> results_main subdomain = Some cname'
          \<and> dom results_main = set (before @ subdomain # after))"
proof (intro conjI impI)
  assume a: "checkCNAMERecords dig before patterns w = (Inr seen, w1)
      \<and> dig subdomain w1 = (run, w2)
      \<and> getCNAMERecord subdomain run = Inr cname \<and> subdomain \<notin> set after
      \<and> checkCNAMERecords dig (before @ subdomain # after) patterns w = (Inr results, w3)"
  show "results subdomain = Some \<lparr>CNAME = cname,
             IsVulnerable = matchesAnyPattern (extractWildcardDomain cname) patterns\<rparr>"
    using a by (elim conjE) (rule scan_last_write)
  show "dom results = set (before @ subdomain # after)"
    using a by (elim conjE) (rule scan_dom)
next
  assume a: "checkCNAMERecords_main dig before w = (Inr seen_main, w1)
      \<and> dig subdomain w1 = (run, w2)
      \<and> getCNAMERecord_main subdomain run = Inr cname' \<and> subdomain \<notin> set after
      \<and> checkCNAMERecords_main dig (before @ subdomain # after) w = (Inr results_main, w3)"
  show "results_main subdomain = Some cname'"
    using a by (elim conjE) (rule main_scan_last_write)
  show "dom results_main = set (before @ subdomain # after)"
    using a by (elim conjE) (rule main_scan_dom)
qed


text \<open>
  The theorem at an input that names the same subdomain twice, with different answers to
  the two queries: the result holds the second answer.
\<close>

theorem last_occurrence_wins_witness:
  "(\<exists>results script.
      checkCNAMERecords replayDig
        [''dup.example.com'', ''other.example.com'', ''dup.example.com'']
        [''vulnerable-host.io'']
        [\<lparr>Stdout = ''old.example.net.'' @ [CHR 0x0A], Stderr = [], Err = None\<rparr>,
         \<lparr>Stdout = [], Stderr = [], Err = None\<rparr>,
         \<lparr>Stdout = ''new.vulnerable-host.io.'' @ [CHR 0x0A], Stderr = [], Err = None\<rparr>]
        = (Inr results, script)
      \<and> results ''dup.example.com''
          = Some \<lparr>CNAME = ''new.vulnerable-host.io.'', IsVulnerable = True\<rparr>
      \<and> dom results = {''dup.example.com'', ''other.example.com''})
   \<and> (\<exists>results script.
      checkCNAMERecords_main replayDig
        [''dup.example.com'', ''other.example.com'', ''dup.example.com'']
        [\<lparr>Stdout = ''old.example.net.'' @ [CHR 0x0A], Stderr = [], Err = None\<rparr>,
         \<lparr>Stdout = [], Stderr = [], Err = None\<rparr>,
         \<lparr>Stdout = ''new.vulnerable-host.io.'' @ [CHR 0x0A], Stderr = [], Err = None\<rparr>]
        = (Inr results, script)
      \<and> results ''dup.example.com'' = Some ''new.vulnerable-host.io.''
      \<and> dom results = {''dup.example.com'', ''other.example.com''})"
proof -
  let ?r1 = "\<lparr>Stdout = ''old.example.net.'' @ [CHR 0x0A], Stderr = [], Err = None\<rparr>"
  let ?r2 = "\<lparr>Stdout = [], Stderr = [], Err = None\<rparr>"
  let ?r3 = "\<lparr>Stdout = ''new.vulnerable-host.io.'' @ [CHR 0x0A], Stderr = [], Err = None\<rparr>"
  let ?d = "''dup.example.com''"
  let ?o = "''other.example.com''"
  let ?pats = "[''vulnerable-host.io'']"
  let ?rec = "\<lambda>cname. \<lparr>CNAME = cname,
      IsVulnerable = matchesAnyPattern (extractWildcardDomain cname) ?pats\<rparr>"
  let ?seen = "[?d \<mapsto> ?rec ''old.example.net.'', ?o \<mapsto> ?rec ''No CNAME record'']"
  let ?m = "?seen(?d \<mapsto> ?rec ''new.vulnerable-host.io.'')"
  let ?seen_main = "[?d \<mapsto> ''old.example.net.'', ?o \<mapsto> ''No CNAME record'']"
  let ?m_main = "?seen_main(?d \<mapsto> ''new.vulnerable-host.io.'')"
  have trim: "TrimSpace (''old.example.net.'' @ [CHR 0x0A]) = ''old.example.net.''"
    "TrimSpace (''new.vulnerable-host.io.'' @ [CHR 0x0A]) = ''new.vulnerable-host.io.''"
    by code_simp+
  have verdict: "matchesAnyPattern (extractWildcardDomain ''new.vulnerable-host.io.'') ?pats"
    by code_simp
  have get: "getCNAMERecord ?d ?r1 = Inr ''old.example.net.''"
    "getCNAMERecord ?o ?r2 = Inr ''No CNAME record''"
    "getCNAMERecord ?d ?r3 = Inr ''new.vulnerable-host.io.''"
    using trim by (simp_all add: getCNAMERecord_def TrimSpace_Nil)
  have get_main: "getCNAMERecord_main ?d ?r1 = Inr ''old.example.net.''"
    "getCNAMERecord_main ?o ?r2 = Inr ''No CNAME record''"
    "getCNAMERecord_main ?d ?r3 = Inr ''new.vulnerable-host.io.''"
    using trim by (simp_all add: getCNAMERecord_main_def TrimSpace_Nil)
  have before: "checkCNAMERecords replayDig [?d, ?o] ?pats [?r1, ?r2, ?r3]
      = (Inr ?seen, [?r3])"
    by (simp only: checkCNAMERecords_def checkCNAMERecords_loop.simps replayDig.simps
          prod.case get sum.case Let_def)
  have before_main: "checkCNAMERecords_main replayDig [?d, ?o] [?r1, ?r2, ?r3]
      = (Inr ?seen_main, [?r3])"
    by (simp only: checkCNAMERecords_main_def checkCNAMERecords_main_loop.simps
          replayDig.simps prod.case get_main sum.case)
  have split: "[?d, ?o] @ ?d # [] = [?d, ?o, ?d]"
    by simp
  have whole0: "checkCNAMERecords replayDig [?d, ?o, ?d] ?pats [?r1, ?r2, ?r3]
      = (Inr ?m, [])"
    by (simp only: checkCNAMERecords_def checkCNAMERecords_loop.simps
          replayDig.simps prod.case get sum.case Let_def)
  have whole_main0: "checkCNAMERecords_main replayDig [?d, ?o, ?d] [?r1, ?r2, ?r3]
      = (Inr ?m_main, [])"
    by (simp only: checkCNAMERecords_main_def checkCNAMERecords_main_loop.simps
          replayDig.simps prod.case get_main sum.case)
  have whole: "checkCNAMERecords replayDig ([?d, ?o] @ ?d # []) ?pats [?r1, ?r2, ?r3]
      = (Inr ?m, [])"
    unfolding split by (rule whole0)
  have whole_main: "checkCNAMERecords_main replayDig ([?d, ?o] @ ?d # []) [?r1, ?r2, ?r3]
      = (Inr ?m_main, [])"
    unfolding split by (rule whole_main0)
  have run: "replayDig ?d [?r3] = (?r3, [])"
    by (simp only: replayDig.simps)
  have last: "?d \<notin> set []"
    by simp
  note inst = last_occurrence_wins [of replayDig "[?d, ?o]" ?pats "[?r1, ?r2, ?r3]" ?seen
      "[?r3]" ?d ?r3 "[]" "''new.vulnerable-host.io.''" "[]" ?m "[]" ?seen_main
      "''new.vulnerable-host.io.''" ?m_main]
  have a: "?m ?d = Some (?rec ''new.vulnerable-host.io.'')
      \<and> dom ?m = set ([?d, ?o] @ ?d # [])"
    by (rule inst [THEN conjunct1, THEN mp,
          OF conjI [OF before conjI [OF run conjI [OF get(3) conjI [OF last whole]]]]])
  have b: "?m_main ?d = Some ''new.vulnerable-host.io.''
      \<and> dom ?m_main = set ([?d, ?o] @ ?d # [])"
    by (rule inst [THEN conjunct2, THEN mp,
          OF conjI [OF before_main conjI [OF run conjI [OF get_main(3)
            conjI [OF last whole_main]]]]])
  have keys: "set ([?d, ?o] @ ?d # []) = {?d, ?o}"
    by auto
  have a1: "?m ?d = Some \<lparr>CNAME = ''new.vulnerable-host.io.'', IsVulnerable = True\<rparr>"
    using a [THEN conjunct1] verdict by simp
  have a2: "dom ?m = {?d, ?o}"
    using a [THEN conjunct2] keys by (rule trans)
  have b2: "dom ?m_main = {?d, ?o}"
    using b [THEN conjunct2] keys by (rule trans)
  have first: "\<exists>results script.
      checkCNAMERecords replayDig [?d, ?o, ?d] ?pats [?r1, ?r2, ?r3] = (Inr results, script)
      \<and> results ?d = Some \<lparr>CNAME = ''new.vulnerable-host.io.'', IsVulnerable = True\<rparr>
      \<and> dom results = {?d, ?o}"
    by (intro exI [of _ ?m] exI [of _ "[]"] conjI) (rule whole0, rule a1, rule a2)
  have second: "\<exists>results script.
      checkCNAMERecords_main replayDig [?d, ?o, ?d] [?r1, ?r2, ?r3] = (Inr results, script)
      \<and> results ?d = Some ''new.vulnerable-host.io.''
      \<and> dom results = {?d, ?o}"
    by (intro exI [of _ ?m_main] exI [of _ "[]"] conjI)
      (rule whole_main0, rule b [THEN conjunct1], rule b2)
  from first second show ?thesis by (rule conjI)
qed

section \<open>The records of a scan and their verdicts\<close>

lemma getCNAMERecord_failed:
  "Err run = Some msg \<Longrightarrow> getCNAMERecord subdomain run = Inl (digError subdomain msg)"
  by (simp add: getCNAMERecord_def)

lemma getCNAMERecord_succeeded:
  "Err run = None \<Longrightarrow> getCNAMERecord subdomain run
     = Inr (if TrimSpace (Stdout run) = [] then ''No CNAME record''
            else TrimSpace (Stdout run))"
  by (simp add: getCNAMERecord_def Let_def)

lemma part000_loop_append:
  "checkCNAMERecords_part000_loop dig (xs @ ys) patterns results w =
     (case checkCNAMERecords_part000_loop dig xs patterns results w of
        (Inl err, w') \<Rightarrow> (Inl err, w')
      | (Inr results', w') \<Rightarrow> checkCNAMERecords_part000_loop dig ys patterns results' w')"
  by (induction xs arbitrary: results w) (auto split: prod.splits sum.splits)

lemma part000_loop_other_key:
  "checkCNAMERecords_part000_loop dig ys patterns results w = (Inr results', w')
     \<Longrightarrow> s \<notin> set ys \<Longrightarrow> results' s = results s"
  by (induction ys arbitrary: results w) (auto split: prod.splits sum.splits simp: Let_def)

lemma part000_scan_aborts:
  assumes "checkCNAMERecords_part000 dig before patterns w = (Inr seen, w1)"
    and "dig subdomain w1 = (run, w2)"
    and "getCNAMERecord subdomain run = Inl err"
  shows "checkCNAMERecords_part000 dig (before @ subdomain # after) patterns w = (Inl err, w2)"
proof -
  have "checkCNAMERecords_part000_loop dig before patterns Map.empty w = (Inr seen, w1)"
    using assms(1) by (simp only: checkCNAMERecords_part000_def)
  moreover have "checkCNAMERecords_part000_loop dig (subdomain # after) patterns seen w1
      = (Inl err, w2)"
    using assms(2,3) by simp
  ultimately show ?thesis
    by (simp only: checkCNAMERecords_part000_def part000_loop_append prod.case sum.case)
qed

lemma part000_scan_last_write:
  assumes before: "checkCNAMERecords_part000 dig before patterns w = (Inr seen, w1)"
    and run: "dig subdomain w1 = (run, w2)"
    and cname: "getCNAMERecord subdomain run = Inr cname"
    and last: "subdomain \<notin> set after"
    and whole: "checkCNAMERecords_part000 dig (before @ subdomain # after) patterns w
      = (Inr results, w3)"
  shows "results subdomain = Some \<lparr>CNAME = cname,
      IsVulnerable = matchesAnyPattern_part000 cname patterns\<rparr>"
proof -
  let ?rec = "\<lparr>CNAME = cname, IsVulnerable = matchesAnyPattern_part000 cname patterns\<rparr>"
  have "checkCNAMERecords_part000_loop dig before patterns Map.empty w = (Inr seen, w1)"
    using before by (simp only: checkCNAMERecords_part000_def)
  then have "checkCNAMERecords_part000_loop dig (before @ subdomain # after) patterns
        Map.empty w
      = checkCNAMERecords_part000_loop dig (subdomain # after) patterns seen w1"
    by (simp only: part000_loop_append prod.case sum.case)
  also have "\<dots> = checkCNAMERecords_part000_loop dig after patterns
      (seen(subdomain \<mapsto> ?rec)) w2"
    using run cname by (simp add: Let_def)
  finally have "checkCNAMERecords_part000_loop dig after patterns
      (seen(subdomain \<mapsto> ?rec)) w2 = (Inr results, w3)"
    using whole by (simp only: checkCNAMERecords_part000_def)
  then have "results subdomain = (seen(subdomain \<mapsto> ?rec)) subdomain"
    using last by (rule part000_loop_other_key)
  then show ?thesis by simp
qed

lemma scan_record_of_run:
  assumes before: "checkCNAMERecords dig before patterns w = (Inr seen, w1)"
    and run: "dig subdomain w1 = (run, w2)"
    and last: "subdomain \<notin> set after"
    and whole: "checkCNAMERecords dig (before @ subdomain # after) patterns w
      = (Inr results, w3)"
  shows "Err run = None"
    and "results subdomain
      = Some \<lparr>CNAME = (if TrimSpace (Stdout run) = [] then ''No CNAME record''
                         else TrimSpace (Stdout run)),
               IsVulnerable = matchesAnyPattern
                 (extractWildcardDomain (if TrimSpace (Stdout run) = [] then ''No CNAME record''
                                         else TrimSpace (Stdout run))) patterns\<rparr>"
proof -
  show ok: "Err run = None"
  proof (cases "Err run")
    case None
    then show ?thesis .
  next
    case (Some msg)
    have "checkCNAMERecords dig (before @ subdomain # after) patterns w
        = (Inl (digError subdomain msg), w2)"
      by (rule scan_aborts [OF before run getCNAMERecord_failed [OF Some]])
    then show ?thesis using whole by simp
  qed
  show "results subdomain
      = Some \<lparr>CNAME = (if TrimSpace (Stdout run) = [] then ''No CNAME record''
                         else TrimSpace (Stdout run)),
               IsVulnerable = matchesAnyPattern
                 (extractWildcardDomain (if TrimSpace (Stdout run) = [] then ''No CNAME record''
                                         else TrimSpace (Stdout run))) patterns\<rparr>"
    by (rule scan_last_write [OF before run getCNAMERecord_succeeded [OF ok] last whole])
qed

lemma part000_scan_record_of_run:
  assumes before: "checkCNAMERecords_part000 dig before patterns w = (Inr seen, w1)"
    and run: "dig subdomain w1 = (run, w2)"
    and last: "subdomain \<notin> set after"
    and whole: "checkCNAMERecords_part000 dig (before @ subdomain # after) patterns w
      = (Inr results, w3)"
  shows "Err run = None"
    and "results subdomain
      = Some \<lparr>CNAME = (if TrimSpace (Stdout run) = [] then ''No CNAME record''
                         else TrimSpace (Stdout run)),
               IsVulnerable = matchesAnyPattern_part000
                 (if TrimSpace (Stdout run) = [] then ''No CNAME record''
                  else TrimSpace (Stdout run)) patterns\<rparr>"
proof -
  show ok: "Err run = None"
  proof (cases "Err run")
    case None
    then show ?thesis .
  next
    case (Some msg)
    have "checkCNAMERecords_part000 dig (before @ subdomain # after) patterns w
        = (Inl (digError subdomain msg), w2)"
      by (rule part000_scan_aborts [OF before run getCNAMERecord_failed [OF Some]])
    then show ?thesis using whole by simp
  qed
  show "results subdomain
      = Some \<lparr>CNAME = (if TrimSpace (Stdout run) = [] then ''No CNAME record''
                         else TrimSpace (Stdout run)),
               IsVulnerable = matchesAnyPattern_part000
                 (if TrimSpace (Stdout run) = [] then ''No CNAME record''
                  else TrimSpace (Stdout run)) patterns\<rparr>"
    by (rule part000_scan_last_write
          [OF before run getCNAMERecord_succeeded [OF ok] last whole])
qed

lemma verdict_part001:
  assumes "checkCNAMERecords dig subdomains patterns w = (Inr results, w')"
    and "results subdomain = Some record"
  shows "IsVulnerable record \<longleftrightarrow>
      extractWildcardDomain (CNAME record) \<noteq> []
      \<and> (\<exists>p \<in> set patterns. \<exists>before after.
            extractWildcardDomain (CNAME record) = before @ p @ after)"
    and "CNAME record = ''No CNAME record'' \<Longrightarrow> \<not> IsVulnerable record"
proof -
  note v = scan_verdict(1) [OF assms]
  show "IsVulnerable record \<longleftrightarrow>
      extractWildcardDomain (CNAME record) \<noteq> []
      \<and> (\<exists>p \<in> set patterns. \<exists>before after.
            extractWildcardDomain (CNAME record) = before @ p @ after)"
    unfolding v by (rule matchesAnyPattern_iff)
  show "\<not> IsVulnerable record" if "CNAME record = ''No CNAME record''"
    unfolding v using that
    by (simp add: extractWildcardDomain_sentinel matchesAnyPattern_iff)
qed

lemma verdict_part000:
  assumes "checkCNAMERecords_part000 dig subdomains patterns w = (Inr results, w')"
    and "results subdomain = Some record"
  shows "IsVulnerable record \<longleftrightarrow>
      CNAME record \<noteq> ''No CNAME record''
      \<and> (\<exists>p \<in> set patterns. \<exists>before after. CNAME record = before @ p @ after)"
  unfolding part000_scan_verdict(1) [OF assms] by (rule matchesAnyPattern_part000_iff)

lemma record_part001:
  assumes before: "checkCNAMERecords dig before patterns w = (Inr seen, w1)"
    and run: "dig subdomain w1 = (run, w2)"
    and last: "subdomain \<notin> set after"
    and whole: "checkCNAMERecords dig (before @ subdomain # after) patterns w
      = (Inr results, w3)"
  shows "Err run = None
    \<and> (\<exists>record. results subdomain = Some record
         \<and> CNAME record = (if TrimSpace (Stdout run) = [] then ''No CNAME record''
                           else TrimSpace (Stdout run))
         \<and> (IsVulnerable record \<longleftrightarrow>
               extractWildcardDomain (CNAME record) \<noteq> []
               \<and> (\<exists>p \<in> set patterns. \<exists>b a.
                     extractWildcardDomain (CNAME record) = b @ p @ a))
         \<and> (TrimSpace (Stdout run) = [] \<longrightarrow> \<not> IsVulnerable record))"
proof -
  let ?c = "if TrimSpace (Stdout run) = [] then ''No CNAME record''
      else TrimSpace (Stdout run)"
  let ?rec = "\<lparr>CNAME = ?c,
      IsVulnerable = matchesAnyPattern (extractWildcardDomain ?c) patterns\<rparr>"
  note r = scan_record_of_run [OF before run last whole]
  have look: "results subdomain = Some ?rec" by (rule r(2))
  have c: "CNAME ?rec = ?c" by simp
  note v = verdict_part001 [OF whole look]
  have empty: "TrimSpace (Stdout run) = [] \<longrightarrow> \<not> IsVulnerable ?rec"
  proof
    assume "TrimSpace (Stdout run) = []"
    then have "CNAME ?rec = ''No CNAME record''" by simp
    then show "\<not> IsVulnerable ?rec" by (rule v(2))
  qed
  show ?thesis
    using r(1) look c v(1) empty by (intro conjI exI [of _ ?rec])
qed

lemma record_part000:
  assumes before: "checkCNAMERecords_part000 dig before patterns w = (Inr seen, w1)"
    and run: "dig subdomain w1 = (run, w2)"
    and last: "subdomain \<notin> set after"
    and whole: "checkCNAMERecords_part000 dig (before @ subdomain # after) patterns w
      = (Inr results, w3)"
  shows "Err run = None
    \<and> (\<exists>record. results subdomain = Some record
         \<and> CNAME record = (if TrimSpace (Stdout run) = [] then ''No CNAME record''
                           else TrimSpace (Stdout run))
         \<and> (IsVulnerable record \<longleftrightarrow>
               CNAME record \<noteq> ''No CNAME record''
               \<and> (\<exists>p \<in> set patterns. \<exists>b a. CNAME record = b @ p @ a))
         \<and> (TrimSpace (Stdout run) = [] \<longrightarrow> \<not> IsVulnerable record))"
proof -
  let ?c = "if TrimSpace (Stdout run) = [] then ''No CNAME record''
      else TrimSpace (Stdout run)"
  let ?rec = "\<lparr>CNAME = ?c, IsVulnerable = matchesAnyPattern_part000 ?c patterns\<rparr>"
  note r = part000_scan_record_of_run [OF before run last whole]
  have look: "results subdomain = Some ?rec" by (rule r(2))
  have c: "CNAME ?rec = ?c" by simp
  note v = verdict_part000 [OF whole look]
  have empty: "TrimSpace (Stdout run) = [] \<longrightarrow> \<not> IsVulnerable ?rec"
  proof
    assume "TrimSpace (Stdout run) = []"
    then have "CNAME ?rec = ''No CNAME record''" by simp
    then show "\<not> IsVulnerable ?rec" using v by blast
  qed
  show ?thesis
    using r(1) look c v empty by (intro conjI exI [of _ ?rec])
qed

text \<open>
  C6, as the code has it. In a successful scan of part 001 the record of a subdomain comes
  from the run of dig for its last occurrence. That run did not fail; the CNAME of the
  record is its trimmed output, or the no-record text if the trimmed output is empty; the
  record is marked vulnerable exactly when the normal form of its CNAME is not empty and
  some pattern occurs in the normal form; and the record of an empty answer is never
  marked, whatever the patterns are (the first part). A run of dig that fails ends the
  scan with the error, whatever its standard error holds, the NXDOMAIN marker too: no
  record is made for it, so the result of a scan has no NXDOMAIN record (the second
  part); standard error is never looked at. For every record of a successful scan the mark is this verdict, and a record
  whose CNAME is the no-record text is not marked (the third part). The last three parts
  say the same of part 000, whose matcher sees the CNAME as it is and not its normal form:
  there a record is marked exactly when its CNAME is not the no-record text and some
  pattern occurs in the CNAME.
\<close>

theorem verdict_only_for_matching_cname:
  "(checkCNAMERecords dig before patterns w = (Inr seen, w1) \<and> dig subdomain w1 = (run, w2)
      \<and> subdomain \<notin> set after
      \<and> checkCNAMERecords dig (before @ subdomain # after) patterns w = (Inr results, w3)
      \<longrightarrow> Err run = None
        \<and> (\<exists>record. results subdomain = Some record
             \<and> CNAME record = (if TrimSpace (Stdout run) = [] then ''No CNAME record''
                               else TrimSpace (Stdout run))
             \<and> (IsVulnerable record \<longleftrightarrow>
                   extractWildcardDomain (CNAME record) \<noteq> []
                   \<and> (\<exists>p \<in> set patterns. \<exists>b a.
                         extractWildcardDomain (CNAME record) = b @ p @ a))
             \<and> (TrimSpace (Stdout run) = [] \<longrightarrow> \<not> IsVulnerable record)))
   \<and> (checkCNAMERecords dig before patterns w = (Inr seen, w1) \<and> dig subdomain w1 = (run, w2)
      \<and> Err run = Some msg
      \<longrightarrow> checkCNAMERecords dig (before @ subdomain # after) patterns w
            = (Inl (digError subdomain msg), w2))
   \<and> (checkCNAMERecords dig subdomains patterns w = (Inr results, w')
      \<and> results subdomain = Some record
      \<longrightarrow> (IsVulnerable record \<longleftrightarrow>
             extractWildcardDomain (CNAME record) \<noteq> []
             \<and> (\<exists>p \<in> set patterns. \<exists>b a.
                   extractWildcardDomain (CNAME record) = b @ p @ a))
          \<and> (CNAME record = ''No CNAME record'' \<longrightarrow> \<not> IsVulnerable record))
   \<and> (checkCNAMERecords_part000 dig before patterns w = (Inr seen, w1)
      \<and> dig subdomain w1 = (run, w2) \<and> subdomain \<notin> set after
      \<and> checkCNAMERecords_part000 dig (before @ subdomain # after) patterns w
           = (Inr results, w3)
      \<longrightarrow> Err run = None
        \<and> (\<exists>record. results subdomain = Some record
             \<and> CNAME record = (if TrimSpace (Stdout run) = [] then ''No CNAME record''
                               else TrimSpace (Stdout run))
             \<and> (IsVulnerable record \<longleftrightarrow>
                   CNAME record \<noteq> ''No CNAME record''
                   \<and> (\<exists>p \<in> set patterns. \<exists>b a. CNAME record = b @ p @ a))
             \<and> (TrimSpace (Stdout run) = [] \<longrightarrow> \<not> IsVulnerable record)))
   \<and> (checkCNAMERecords_part000 dig before patterns w = (Inr seen, w1)
      \<and> dig subdomain w1 = (run, w2) \<and> Err run = Some msg
      \<longrightarrow> checkCNAMERecords_part000 dig (before @ subdomain # after) patterns w
            = (Inl (digError subdomain msg), w2))
   \<and> (checkCNAMERecords_part000 dig subdomains patterns w = (Inr results, w')
      \<and> results subdomain = Some record
      \<longrightarrow> (IsVulnerable record \<longleftrightarrow>
             CNAME record \<noteq> ''No CNAME record''
             \<and> (\<exists>p \<in> set patterns. \<exists>b a. CNAME record = b @ p @ a)))"
proof -
  have p1: "checkCNAMERecords dig before patterns w = (Inr seen, w1)
      \<and> dig subdomain w1 = (run, w2) \<and> subdomain \<notin> set after
      \<and> checkCNAMERecords dig (before @ subdomain # after) patterns w = (Inr results, w3)
      \<longrightarrow> Err run = None
        \<and> (\<exists>record. results subdomain = Some record
             \<and> CNAME record = (if TrimSpace (Stdout run) = [] then ''No CNAME record''
                               else TrimSpace (Stdout run))
             \<and> (IsVulnerable record \<longleftrightarrow>
                   extractWildcardDomain (CNAME record) \<noteq> []
                   \<and> (\<exists>p \<in> set patterns. \<exists>b a.
                         extractWildcardDomain (CNAME record) = b @ p @ a))
             \<and> (TrimSpace (Stdout run) = [] \<longrightarrow> \<not> IsVulnerable record))"
    by (intro impI, elim conjE) (rule record_part001)
  have p2: "checkCNAMERecords dig before patterns w = (Inr seen, w1)
      \<and> dig subdomain w1 = (run, w2) \<and> Err run = Some msg
      \<longrightarrow> checkCNAMERecords dig (before @ subdomain # after) patterns w
            = (Inl (digError subdomain msg), w2)"
  proof (intro impI, elim conjE)
    assume "checkCNAMERecords dig before patterns w = (Inr seen, w1)"
      "dig subdomain w1 = (run, w2)" "Err run = Some msg"
    then show "checkCNAMERecords dig (before @ subdomain # after) patterns w
            = (Inl (digError subdomain msg), w2)"
      using getCNAMERecord_failed by (intro scan_aborts)
  qed
  have p3: "checkCNAMERecords dig subdomains patterns w = (Inr results, w')
      \<and> results subdomain = Some record
      \<longrightarrow> (IsVulnerable record \<longleftrightarrow>
             extractWildcardDomain (CNAME record) \<noteq> []
             \<and> (\<exists>p \<in> set patterns. \<exists>b a.
                   extractWildcardDomain (CNAME record) = b @ p @ a))
          \<and> (CNAME record = ''No CNAME record'' \<longrightarrow> \<not> IsVulnerable record)"
  proof (intro impI, elim conjE)
    assume a: "checkCNAMERecords dig subdomains patterns w = (Inr results, w')"
      "results subdomain = Some record"
    show "(IsVulnerable record \<longleftrightarrow>
             extractWildcardDomain (CNAME record) \<noteq> []
             \<and> (\<exists>p \<in> set patterns. \<exists>b a.
                   extractWildcardDomain (CNAME record) = b @ p @ a))
          \<and> (CNAME record = ''No CNAME record'' \<longrightarrow> \<not> IsVulnerable record)"
      using verdict_part001 [OF a] by blast
  qed
  have p4: "checkCNAMERecords_part000 dig before patterns w = (Inr seen, w1)
      \<and> dig subdomain w1 = (run, w2) \<and> subdomain \<notin> set after
      \<and> checkCNAMERecords_part000 dig (before @ subdomain # after) patterns w
           = (Inr results, w3)
      \<longrightarrow> Err run = None
        \<and> (\<exists>record. results subdomain = Some record
             \<and> CNAME record = (if TrimSpace (Stdout run) = [] then ''No CNAME record''
                               else TrimSpace (Stdout run))
             \<and> (IsVulnerable record \<longleftrightarrow>
                   CNAME record \<noteq> ''No CNAME record''
                   \<and> (\<exists>p \<in> set patterns. \<exists>b a. CNAME record = b @ p @ a))
             \<and> (TrimSpace (Stdout run) = [] \<longrightarrow> \<not> IsVulnerable record))"
    by (intro impI, elim conjE) (rule record_part000)
  have p5: "checkCNAMERecords_part000 dig before patterns w = (Inr seen, w1)
      \<and> dig subdomain w1 = (run, w2) \<and> Err run = Some msg
      \<longrightarrow> checkCNAMERecords_part000 dig (before @ subdomain # after) patterns w
            = (Inl (digError subdomain msg), w2)"
  proof (intro impI, elim conjE)
    assume "checkCNAMERecords_part000 dig before patterns w = (Inr seen, w1)"
      "dig subdomain w1 = (run, w2)" "Err run = Some msg"
    then show "checkCNAMERecords_part000 dig (before @ subdomain # after) patterns w
            = (Inl (digError subdomain msg), w2)"
      using getCNAMERecord_failed by (intro part000_scan_aborts)
  qed
  have p6: "checkCNAMERecords_part000 dig subdomains patterns w = (Inr results, w')
      \<and> results subdomain = Some record
      \<longrightarrow> (IsVulnerable record \<longleftrightarrow>
             CNAME record \<noteq> ''No CNAME record''
             \<and> (\<exists>p \<in> set patterns. \<exists>b a. CNAME record = b @ p @ a))"
    by (intro impI, elim conjE) (rule verdict_part000)
  from p1 p2 p3 p4 p5 p6 show ?thesis by (intro conjI)
qed

text \<open>
  The theorem at a scan of two subdomains, one whose CNAME matches the pattern and one
  without a CNAME record, and at a scan whose second run fails with the NXDOMAIN marker on
  standard error: part 001 and part 000 return the error and no record.
\<close>

theorem verdict_only_for_matching_cname_witness:
  "(\<exists>results script.
     checkCNAMERecords replayDig [''shop.example.com'', ''blog.example.com'']
       [''vulnerable-host.io'']
       [\<lparr>Stdout = ''shops.vulnerable-host.io.'' @ [CHR 0x0A], Stderr = [], Err = None\<rparr>,
        \<lparr>Stdout = [], Stderr = [], Err = None\<rparr>] = (Inr results, script)
     \<and> (\<exists>record. results ''blog.example.com'' = Some record
           \<and> CNAME record = ''No CNAME record'' \<and> \<not> IsVulnerable record)
     \<and> (\<exists>record. results ''shop.example.com'' = Some record
           \<and> IsVulnerable record \<and> extractWildcardDomain (CNAME record) \<noteq> []))
   \<and> Contains '';; ->>HEADER<<- opcode: QUERY, status: NXDOMAIN, id: 7'' ''status: NXDOMAIN''
   \<and> checkCNAMERecords replayDig [''shop.example.com'', ''gone.example.com'']
       [''vulnerable-host.io'']
       [\<lparr>Stdout = ''shops.vulnerable-host.io.'' @ [CHR 0x0A], Stderr = [], Err = None\<rparr>,
        \<lparr>Stdout = [], Stderr = '';; ->>HEADER<<- opcode: QUERY, status: NXDOMAIN, id: 7'',
           Err = Some ''exit status 9''\<rparr>]
      = (Inl ''error executing dig command for gone.example.com: exit status 9'', [])
   \<and> checkCNAMERecords_part000 replayDig [''shop.example.com'', ''gone.example.com'']
       [''vulnerable-host.io'']
       [\<lparr>Stdout = ''shops.vulnerable-host.io.'' @ [CHR 0x0A], Stderr = [], Err = None\<rparr>,
        \<lparr>Stdout = [], Stderr = '';; ->>HEADER<<- opcode: QUERY, status: NXDOMAIN, id: 7'',
           Err = Some ''exit status 9''\<rparr>]
      = (Inl ''error executing dig command for gone.example.com: exit status 9'', [])"
proof -
  let ?shop = "''shop.example.com''"
  let ?blog = "''blog.example.com''"
  let ?gone = "''gone.example.com''"
  let ?r1 = "\<lparr>Stdout = ''shops.vulnerable-host.io.'' @ [CHR 0x0A], Stderr = [], Err = None\<rparr>"
  let ?r2 = "\<lparr>Stdout = [], Stderr = [], Err = None\<rparr>"
  let ?nx = "\<lparr>Stdout = [], Stderr = '';; ->>HEADER<<- opcode: QUERY, status: NXDOMAIN, id: 7'',
           Err = Some ''exit status 9''\<rparr>"
  let ?pats = "[''vulnerable-host.io'']"
  let ?rec1 = "\<lparr>CNAME = ''shops.vulnerable-host.io.'',
      IsVulnerable = matchesAnyPattern (extractWildcardDomain ''shops.vulnerable-host.io.'') ?pats\<rparr>"
  let ?rec2 = "\<lparr>CNAME = ''No CNAME record'',
      IsVulnerable = matchesAnyPattern (extractWildcardDomain ''No CNAME record'') ?pats\<rparr>"
  let ?seen = "[?shop \<mapsto> ?rec1]"
  let ?m = "[?shop \<mapsto> ?rec1, ?blog \<mapsto> ?rec2]"
  let ?old = "\<lparr>CNAME = ''shops.vulnerable-host.io.'',
      IsVulnerable = matchesAnyPattern_part000 ''shops.vulnerable-host.io.'' ?pats\<rparr>"
  let ?seenp = "[?shop \<mapsto> ?old]"
  have marker: "Contains '';; ->>HEADER<<- opcode: QUERY, status: NXDOMAIN, id: 7''
      ''status: NXDOMAIN''"
    by code_simp
  have trim: "TrimSpace (''shops.vulnerable-host.io.'' @ [CHR 0x0A]) = ''shops.vulnerable-host.io.''"
    by code_simp
  have get1: "getCNAMERecord ?shop ?r1 = Inr ''shops.vulnerable-host.io.''"
    using trim by (simp add: getCNAMERecord_def)
  have get2: "getCNAMERecord ?blog ?r2 = Inr ''No CNAME record''"
    by (simp add: getCNAMERecord_def TrimSpace_Nil)
  have before: "checkCNAMERecords replayDig [?shop] ?pats [?r1, ?r2] = (Inr ?seen, [?r2])"
    by (simp only: checkCNAMERecords_def checkCNAMERecords_loop.simps replayDig.simps
          prod.case get1 sum.case Let_def)
  have before_nx: "checkCNAMERecords replayDig [?shop] ?pats [?r1, ?nx] = (Inr ?seen, [?nx])"
    by (simp only: checkCNAMERecords_def checkCNAMERecords_loop.simps replayDig.simps
          prod.case get1 sum.case Let_def)
  have before_nxp: "checkCNAMERecords_part000 replayDig [?shop] ?pats [?r1, ?nx]
      = (Inr ?seenp, [?nx])"
    by (simp only: checkCNAMERecords_part000_def checkCNAMERecords_part000_loop.simps
          replayDig.simps prod.case get1 sum.case Let_def)
  have whole0: "checkCNAMERecords replayDig [?shop, ?blog] ?pats [?r1, ?r2] = (Inr ?m, [])"
    by (simp only: checkCNAMERecords_def checkCNAMERecords_loop.simps replayDig.simps
          prod.case get1 get2 sum.case Let_def)
  have split: "[?shop] @ ?blog # [] = [?shop, ?blog]" "[?shop] @ ?gone # [] = [?shop, ?gone]"
    by simp_all
  have whole: "checkCNAMERecords replayDig ([?shop] @ ?blog # []) ?pats [?r1, ?r2]
      = (Inr ?m, [])"
    unfolding split by (rule whole0)
  have run2: "replayDig ?blog [?r2] = (?r2, [])"
    by (simp only: replayDig.simps)
  have run_nx: "replayDig ?gone [?nx] = (?nx, [])"
    by (simp only: replayDig.simps)
  have last: "?blog \<notin> set []"
    by simp
  have failed: "Err ?nx = Some ''exit status 9''"
    by simp
  have empty: "TrimSpace (Stdout ?r2) = []"
    by (simp add: TrimSpace_Nil)
  note inst = verdict_only_for_matching_cname [of replayDig "[?shop]" ?pats "[?r1, ?r2]"
      ?seen "[?r2]" ?blog ?r2 "[]" "[]" ?m "[]"]
  from inst [THEN conjunct1, THEN mp,
      OF conjI [OF before conjI [OF run2 conjI [OF last whole]]], THEN conjunct2]
  obtain rcd where look2: "?m ?blog = Some rcd"
    and cname: "CNAME rcd
        = (if TrimSpace (Stdout ?r2) = [] then ''No CNAME record'' else TrimSpace (Stdout ?r2))"
    and clean: "TrimSpace (Stdout ?r2) = [] \<longrightarrow> \<not> IsVulnerable rcd"
    by blast
  have blog: "\<exists>record. ?m ?blog = Some record
      \<and> CNAME record = ''No CNAME record'' \<and> \<not> IsVulnerable record"
  proof (intro exI [of _ rcd] conjI)
    show "?m ?blog = Some rcd" by (rule look2)
    show "CNAME rcd = ''No CNAME record''" using cname empty by simp
    show "\<not> IsVulnerable rcd" using clean empty by (rule mp)
  qed
  have look1: "?m ?shop = Some ?rec1"
    by simp
  have flagged: "IsVulnerable ?rec1"
    by code_simp
  note inst3 = verdict_only_for_matching_cname [of replayDig _ ?pats "[?r1, ?r2]"
      _ _ ?shop _ _ _ ?m _ _ "[?shop, ?blog]" "[]" ?rec1]
  have "extractWildcardDomain (CNAME ?rec1) \<noteq> []"
    using inst3 [THEN conjunct2, THEN conjunct2, THEN conjunct1, THEN mp,
        OF conjI [OF whole0 look1], THEN conjunct1, THEN iffD1, OF flagged]
    by (rule conjunct1)
  then have shop: "\<exists>record. ?m ?shop = Some record
      \<and> IsVulnerable record \<and> extractWildcardDomain (CNAME record) \<noteq> []"
    using look1 flagged by (intro exI [of _ ?rec1] conjI)
  have first: "\<exists>results script.
     checkCNAMERecords replayDig [?shop, ?blog] ?pats [?r1, ?r2] = (Inr results, script)
     \<and> (\<exists>record. results ?blog = Some record
           \<and> CNAME record = ''No CNAME record'' \<and> \<not> IsVulnerable record)
     \<and> (\<exists>record. results ?shop = Some record
           \<and> IsVulnerable record \<and> extractWildcardDomain (CNAME record) \<noteq> [])"
    using whole0 blog shop by (intro exI [of _ ?m] exI [of _ "[]"] conjI)
  note inst_nx = verdict_only_for_matching_cname [of replayDig "[?shop]" ?pats "[?r1, ?nx]"
      ?seen "[?nx]" ?gone ?nx "[]" "[]" _ _ "''exit status 9''"]
  have "checkCNAMERecords replayDig ([?shop] @ ?gone # []) ?pats [?r1, ?nx]
      = (Inl (digError ?gone ''exit status 9''), [])"
    by (rule inst_nx [THEN conjunct2, THEN conjunct1, THEN mp,
          OF conjI [OF before_nx conjI [OF run_nx failed]]])
  then have second: "checkCNAMERecords replayDig [?shop, ?gone] ?pats [?r1, ?nx]
      = (Inl ''error executing dig command for gone.example.com: exit status 9'', [])"
    unfolding split by (simp add: digError_def)
  note inst_nxp = verdict_only_for_matching_cname [of replayDig "[?shop]" ?pats "[?r1, ?nx]"
      ?seenp "[?nx]" ?gone ?nx "[]" "[]" _ _ "''exit status 9''"]
  have "checkCNAMERecords_part000 replayDig ([?shop] @ ?gone # []) ?pats [?r1, ?nx]
      = (Inl (digError ?gone ''exit status 9''), [])"
    by (rule inst_nxp [THEN conjunct2, THEN conjunct2, THEN conjunct2, THEN conjunct2,
          THEN conjunct1, THEN mp, OF conjI [OF before_nxp conjI [OF run_nx failed]]])
  then have third: "checkCNAMERecords_part000 replayDig [?shop, ?gone] ?pats [?r1, ?nx]
      = (Inl ''error executing dig command for gone.example.com: exit status 9'', [])"
    unfolding split by (simp add: digError_def)
  from first marker second third show ?thesis by (intro conjI)
qed

text \<open>
  The claim as it was written fails on part 000: the record is marked vulnerable, because
  the pattern \<open>*.cdn\<close> occurs in its CNAME, although the pattern does not occur in the
  normal form \<open>cdn.example.net.\<close> of the CNAME.
\<close>

theorem verdict_only_for_matching_cname_counterexample:
  "checkCNAMERecords_part000 replayDig [''shop.example.com''] [''*.cdn'']
     [\<lparr>Stdout = ''*.cdn.example.net.'' @ [CHR 0x0A], Stderr = [], Err = None\<rparr>]
    = (Inr [''shop.example.com'' \<mapsto>
              \<lparr>CNAME = ''*.cdn.example.net.'', IsVulnerable = True\<rparr>], [])
   \<and> extractWildcardDomain ''*.cdn.example.net.'' = ''cdn.example.net.''
   \<and> matchesAnyPattern (extractWildcardDomain ''*.cdn.example.net.'') [''*.cdn''] = False"
proof -
  let ?r1 = "\<lparr>Stdout = ''*.cdn.example.net.'' @ [CHR 0x0A], Stderr = [], Err = None\<rparr>"
  have trim: "TrimSpace (''*.cdn.example.net.'' @ [CHR 0x0A]) = ''*.cdn.example.net.''"
    by code_simp
  have get1: "getCNAMERecord ''shop.example.com'' ?r1 = Inr ''*.cdn.example.net.''"
    using trim by (simp add: getCNAMERecord_def)
  have verdict: "matchesAnyPattern_part000 ''*.cdn.example.net.'' [''*.cdn''] = True"
    by code_simp
  have scan: "checkCNAMERecords_part000 replayDig [''shop.example.com''] [''*.cdn''] [?r1]
    = (Inr [''shop.example.com'' \<mapsto>
              \<lparr>CNAME = ''*.cdn.example.net.'', IsVulnerable = True\<rparr>], [])"
    by (simp only: checkCNAMERecords_part000_def checkCNAMERecords_part000_loop.simps
          replayDig.simps prod.case get1 sum.case Let_def verdict)
  have norm: "extractWildcardDomain ''*.cdn.example.net.'' = ''cdn.example.net.''"
    by code_simp
  have nomatch: "matchesAnyPattern (extractWildcardDomain ''*.cdn.example.net.'') [''*.cdn'']
      = False"
    by code_simp
  from scan norm nomatch show ?thesis by (intro conjI)
qed

section \<open>The scan: equal answers give equal results\<close>

lemma loop_deterministic:
  "(\<forall>s v v'. fst (dig s v) = fst (dig s v'))
     \<Longrightarrow> fst (checkCNAMERecords_loop dig subdomains patterns results w)
         = fst (checkCNAMERecords_loop dig subdomains patterns results w')"
proof (induction subdomains arbitrary: results w w')
  case Nil
  then show ?case by simp
next
  case (Cons s rest)
  obtain run v where d: "dig s w = (run, v)" by (cases "dig s w")
  obtain run' v' where d': "dig s w' = (run', v')" by (cases "dig s w'")
  have "fst (dig s w) = fst (dig s w')" using Cons.prems by blast
  then have same: "run' = run" using d d' by simp
  show ?case
  proof (cases "getCNAMERecord s run")
    case (Inl err)
    then show ?thesis using d d' same by simp
  next
    case (Inr cname)
    then show ?thesis using d d' same Cons.IH [OF Cons.prems] by (simp add: Let_def)
  qed
qed

lemma part000_loop_deterministic:
  "(\<forall>s v v'. fst (dig s v) = fst (dig s v'))
     \<Longrightarrow> fst (checkCNAMERecords_part000_loop dig subdomains patterns results w)
         = fst (checkCNAMERecords_part000_loop dig subdomains patterns results w')"
proof (induction subdomains arbitrary: results w w')
  case Nil
  then show ?case by simp
next
  case (Cons s rest)
  obtain run v where d: "dig s w = (run, v)" by (cases "dig s w")
  obtain run' v' where d': "dig s w' = (run', v')" by (cases "dig s w'")
  have "fst (dig s w) = fst (dig s w')" using Cons.prems by blast
  then have same: "run' = run" using d d' by simp
  show ?case
  proof (cases "getCNAMERecord s run")
    case (Inl err)
    then show ?thesis using d d' same by simp
  next
    case (Inr cname)
    then show ?thesis using d d' same Cons.IH [OF Cons.prems] by (simp add: Let_def)
  qed
qed

text \<open>
  C9. Let the resolver give the same answer to the same name in every state of the world.
  Then the result of the scan (the error, or the map of records) does not depend on the
  world it starts in; in particular a second scan, started in the world the first scan
  left, returns what the first returned. This holds for the scans of part 001 and of
  part 000.
\<close>

theorem scan_deterministic:
  "((\<forall>s v v'. fst (dig s v) = fst (dig s v')) \<longrightarrow>
      fst (checkCNAMERecords dig subdomains patterns w)
        = fst (checkCNAMERecords dig subdomains patterns w')
      \<and> fst (checkCNAMERecords dig subdomains patterns
               (snd (checkCNAMERecords dig subdomains patterns w)))
        = fst (checkCNAMERecords dig subdomains patterns w))
   \<and> ((\<forall>s v v'. fst (dig s v) = fst (dig s v')) \<longrightarrow>
      fst (checkCNAMERecords_part000 dig subdomains patterns w)
        = fst (checkCNAMERecords_part000 dig subdomains patterns w')
      \<and> fst (checkCNAMERecords_part000 dig subdomains patterns
               (snd (checkCNAMERecords_part000 dig subdomains patterns w)))
        = fst (checkCNAMERecords_part000 dig subdomains patterns w))"
proof (intro conjI impI)
  assume det: "\<forall>s v v'. fst (dig s v) = fst (dig s v')"
  show "fst (checkCNAMERecords dig subdomains patterns w)
        = fst (checkCNAMERecords dig subdomains patterns w')"
    unfolding checkCNAMERecords_def using det by (rule loop_deterministic)
  show "fst (checkCNAMERecords dig subdomains patterns
               (snd (checkCNAMERecords dig subdomains patterns w)))
        = fst (checkCNAMERecords dig subdomains patterns w)"
    unfolding checkCNAMERecords_def using det by (rule loop_deterministic)
  show "fst (checkCNAMERecords_part000 dig subdomains patterns w)
        = fst (checkCNAMERecords_part000 dig subdomains patterns w')"
    unfolding checkCNAMERecords_part000_def using det by (rule part000_loop_deterministic)
  show "fst (checkCNAMERecords_part000 dig subdomains patterns
               (snd (checkCNAMERecords_part000 dig subdomains patterns w)))
        = fst (checkCNAMERecords_part000 dig subdomains patterns w)"
    unfolding checkCNAMERecords_part000_def using det by (rule part000_loop_deterministic)
qed

text \<open>
  The theorem at a resolver that answers from a table and counts its runs: the first scan
  starts with the count 0 and leaves it at 2, and the scan that starts at 2 returns the
  same result.
\<close>

theorem scan_deterministic_witness:
  "snd (checkCNAMERecords
          (tableDig (\<lambda>s. if s = ''shop.example.com''
             then \<lparr>Stdout = ''shops.vulnerable-host.io.'' @ [CHR 0x0A], Stderr = [], Err = None\<rparr>
             else \<lparr>Stdout = [], Stderr = [], Err = None\<rparr>))
          [''shop.example.com'', ''blog.example.com''] [''vulnerable-host.io''] 0) = 2
   \<and> fst (checkCNAMERecords
          (tableDig (\<lambda>s. if s = ''shop.example.com''
             then \<lparr>Stdout = ''shops.vulnerable-host.io.'' @ [CHR 0x0A], Stderr = [], Err = None\<rparr>
             else \<lparr>Stdout = [], Stderr = [], Err = None\<rparr>))
          [''shop.example.com'', ''blog.example.com''] [''vulnerable-host.io''] 2)
     = fst (checkCNAMERecords
          (tableDig (\<lambda>s. if s = ''shop.example.com''
             then \<lparr>Stdout = ''shops.vulnerable-host.io.'' @ [CHR 0x0A], Stderr = [], Err = None\<rparr>
             else \<lparr>Stdout = [], Stderr = [], Err = None\<rparr>))
          [''shop.example.com'', ''blog.example.com''] [''vulnerable-host.io''] 0)
   \<and> fst (checkCNAMERecords_part000
          (tableDig (\<lambda>s. if s = ''shop.example.com''
             then \<lparr>Stdout = ''shops.vulnerable-host.io.'' @ [CHR 0x0A], Stderr = [], Err = None\<rparr>
             else \<lparr>Stdout = [], Stderr = [], Err = None\<rparr>))
          [''shop.example.com'', ''blog.example.com''] [''vulnerable-host.io''] 2)
     = fst (checkCNAMERecords_part000
          (tableDig (\<lambda>s. if s = ''shop.example.com''
             then \<lparr>Stdout = ''shops.vulnerable-host.io.'' @ [CHR 0x0A], Stderr = [], Err = None\<rparr>
             else \<lparr>Stdout = [], Stderr = [], Err = None\<rparr>))
          [''shop.example.com'', ''blog.example.com''] [''vulnerable-host.io''] 0)"
proof -
  let ?answer = "\<lambda>s. if s = ''shop.example.com''
             then \<lparr>Stdout = ''shops.vulnerable-host.io.'' @ [CHR 0x0A], Stderr = [], Err = None\<rparr>
             else \<lparr>Stdout = [], Stderr = [], Err = None\<rparr>"
  let ?subs = "[''shop.example.com'', ''blog.example.com'']"
  let ?pats = "[''vulnerable-host.io'']"
  have det: "\<forall>s v v'. fst (tableDig ?answer s v) = fst (tableDig ?answer s v')"
    by (simp only: tableDig_def fst_conv) simp
  have world: "snd (checkCNAMERecords (tableDig ?answer) ?subs ?pats 0) = 2"
    by code_simp
  note inst = scan_deterministic [of "tableDig ?answer" ?subs ?pats 2 0]
  have a: "fst (checkCNAMERecords (tableDig ?answer) ?subs ?pats 2)
      = fst (checkCNAMERecords (tableDig ?answer) ?subs ?pats 0)"
    by (rule inst [THEN conjunct1, THEN mp, OF det, THEN conjunct1])
  have b: "fst (checkCNAMERecords_part000 (tableDig ?answer) ?subs ?pats 2)
      = fst (checkCNAMERecords_part000 (tableDig ?answer) ?subs ?pats 0)"
    by (rule inst [THEN conjunct2, THEN mp, OF det, THEN conjunct1])
  from world a b show ?thesis by (intro conjI)
qed

section \<open>The report of part 001\<close>

lemma file_Write_reliable:
  "dev (fileWrites s) = None \<Longrightarrow>
   file_Write dev p s
     = ((length p, None), s\<lparr>onDisk := onDisk s @ p, fileWrites := Suc (fileWrites s)\<rparr>)"
  by (simp add: file_Write_def)

lemma bufio_Flush_reliable:
  assumes "\<forall>k. dev k = None" and "stickyErr s = None"
  shows "onDisk (bufio_Flush dev s) = onDisk s @ buffered s"
    and "buffered (bufio_Flush dev s) = []"
    and "stickyErr (bufio_Flush dev s) = None"
  using assms by (simp_all add: bufio_Flush_def file_Write_reliable)

lemma bufio_Write_reliable:
  "(\<forall>k. dev k = None) \<Longrightarrow> stickyErr s = None \<Longrightarrow>
   \<exists>s'. bufio_Write dev p s = (None, s') \<and> stickyErr s' = None
        \<and> onDisk s' @ buffered s' = onDisk s @ buffered s @ p"
proof (induction dev p s rule: bufio_Write.induct)
  case (1 dev p s)
  have rel: "\<forall>k. dev k = None" by (rule "1.prems"(1))
  have ok: "stickyErr s = None" by (rule "1.prems"(2))
  show ?case
  proof (cases "length p > 4096 - length (buffered s)")
    case False
    then show ?thesis using ok by (subst bufio_Write.simps) simp
  next
    case big: True
    show ?thesis
    proof (cases "buffered s = []")
      case True
      let ?s' = "s\<lparr>onDisk := onDisk s @ p, fileWrites := Suc (fileWrites s)\<rparr>"
      have fw: "file_Write dev p s = ((length p, None), ?s')"
        using rel by (simp add: file_Write_reliable)
      have "\<exists>t. bufio_Write dev (drop (length p) p) (?s'\<lparr>stickyErr := None\<rparr>) = (None, t)
          \<and> stickyErr t = None
          \<and> onDisk t @ buffered t
              = onDisk (?s'\<lparr>stickyErr := None\<rparr>) @ buffered (?s'\<lparr>stickyErr := None\<rparr>)
                @ drop (length p) p"
        by (rule "1.IH"(1) [OF conjI [OF big ok] True fw [symmetric] refl rel]) simp
      then obtain t where t: "bufio_Write dev [] (?s'\<lparr>stickyErr := None\<rparr>) = (None, t)"
        "stickyErr t = None" "onDisk t @ buffered t = onDisk s @ p"
        using True by auto
      have "bufio_Write dev p s = (None, t)"
        using big ok True fw t(1) by (subst bufio_Write.simps) simp
      then show ?thesis using t True by simp
    next
      case False
      let ?n = "4096 - length (buffered s)"
      let ?s1 = "s\<lparr>buffered := buffered s @ take ?n p\<rparr>"
      let ?s2 = "bufio_Flush dev ?s1"
      have ok1: "stickyErr ?s1 = None" using ok by simp
      have f: "onDisk ?s2 = onDisk s @ buffered s @ take ?n p" "buffered ?s2 = []"
        "stickyErr ?s2 = None"
        using bufio_Flush_reliable [OF rel ok1] by simp_all
      have "\<exists>t. bufio_Write dev (drop ?n p) ?s2 = (None, t) \<and> stickyErr t = None
          \<and> onDisk t @ buffered t = onDisk ?s2 @ buffered ?s2 @ drop ?n p"
        by (rule "1.IH"(2) [OF conjI [OF big ok] False refl refl rel f(3)])
      then obtain t where t: "bufio_Write dev (drop ?n p) ?s2 = (None, t)"
        "stickyErr t = None" "onDisk t @ buffered t = onDisk s @ buffered s @ p"
        using f by auto
      have "bufio_Write dev p s = (None, t)"
        using big ok False t(1) by (subst bufio_Write.simps) (simp add: Let_def)
      then show ?thesis using t by simp
    qed
  qed
qed

lemma main_writeLoop_reliable:
  "(\<forall>k. dev k = None) \<Longrightarrow> stickyErr s = None \<Longrightarrow>
   \<exists>s'. main_writeLoop dev results order s = Inr s' \<and> stickyErr s' = None
        \<and> onDisk s' @ buffered s'
            = onDisk s @ buffered s
              @ concat (map (\<lambda>k. case results k of
                                    None \<Rightarrow> []
                                  | Some r \<Rightarrow> if IsVulnerable r then reportLine k r else [])
                           order)"
proof (induction order arbitrary: s)
  case Nil
  then show ?case by simp
next
  case (Cons a rest)
  show ?case
  proof (cases "results a")
    case None
    then show ?thesis using Cons.IH [OF Cons.prems] by simp
  next
    case (Some r)
    show ?thesis
    proof (cases "IsVulnerable r")
      case False
      then show ?thesis using Some Cons.IH [OF Cons.prems] by simp
    next
      case True
      obtain s1 where w: "bufio_Write dev (reportLine a r) s = (None, s1)"
        and ok1: "stickyErr s1 = None"
        and c1: "onDisk s1 @ buffered s1 = onDisk s @ buffered s @ reportLine a r"
        using bufio_Write_reliable [OF Cons.prems] by blast
      obtain s' where l: "main_writeLoop dev results rest s1 = Inr s'"
        and ok': "stickyErr s' = None"
        and c': "onDisk s' @ buffered s'
            = onDisk s1 @ buffered s1
              @ concat (map (\<lambda>k. case results k of
                                    None \<Rightarrow> []
                                  | Some r \<Rightarrow> if IsVulnerable r then reportLine k r else [])
                           rest)"
        using Cons.IH [OF Cons.prems(1) ok1] by blast
      have "main_writeLoop dev results (a # rest) s = Inr s'"
        using Some True w l by simp
      moreover have "onDisk s' @ buffered s'
            = onDisk s @ buffered s
              @ concat (map (\<lambda>k. case results k of
                                    None \<Rightarrow> []
                                  | Some r \<Rightarrow> if IsVulnerable r then reportLine k r else [])
                           (a # rest))"
      proof -
        have "onDisk s' @ buffered s'
            = (onDisk s1 @ buffered s1)
              @ concat (map (\<lambda>k. case results k of
                                    None \<Rightarrow> []
                                  | Some r \<Rightarrow> if IsVulnerable r then reportLine k r else [])
                           rest)"
          by (simp only: c' append_assoc)
        also have "\<dots> = (onDisk s @ buffered s @ reportLine a r)
              @ concat (map (\<lambda>k. case results k of
                                    None \<Rightarrow> []
                                  | Some r \<Rightarrow> if IsVulnerable r then reportLine k r else [])
                           rest)"
          by (simp only: c1)
        also have "\<dots> = onDisk s @ buffered s
              @ concat (map (\<lambda>k. case results k of
                                    None \<Rightarrow> []
                                  | Some r \<Rightarrow> if IsVulnerable r then reportLine k r else [])
                           (a # rest))"
          using Some True by simp
        finally show ?thesis .
      qed
      ultimately show ?thesis using ok' by blast
    qed
  qed
qed

lemma main_writeResults_reliable:
  assumes "\<forall>k. dev k = None"
  shows "main_writeResults None dev results order
     = Inr (concat (map (\<lambda>k. case results k of
                             None \<Rightarrow> []
                           | Some r \<Rightarrow> if IsVulnerable r then reportLine k r else [])
                    order))"
proof -
  let ?s0 = "\<lparr>onDisk = [], buffered = [], stickyErr = None, fileWrites = 0\<rparr>"
  have ok0: "stickyErr ?s0 = None" by simp
  obtain s' where l: "main_writeLoop dev results order ?s0 = Inr s'"
    and ok': "stickyErr s' = None"
    and c': "onDisk s' @ buffered s'
            = onDisk ?s0 @ buffered ?s0
              @ concat (map (\<lambda>k. case results k of
                                    None \<Rightarrow> []
                                  | Some r \<Rightarrow> if IsVulnerable r then reportLine k r else [])
                           order)"
    using main_writeLoop_reliable [OF assms ok0] by blast
  have "onDisk (bufio_Flush dev s') = onDisk s' @ buffered s'"
    by (rule bufio_Flush_reliable(1) [OF assms ok'])
  also have "\<dots> = concat (map (\<lambda>k. case results k of
                                    None \<Rightarrow> []
                                  | Some r \<Rightarrow> if IsVulnerable r then reportLine k r else [])
                           order)"
    unfolding c' by simp
  finally have "onDisk (bufio_Flush dev s')
      = concat (map (\<lambda>k. case results k of
                             None \<Rightarrow> []
                           | Some r \<Rightarrow> if IsVulnerable r then reportLine k r else [])
                    order)" .
  then show ?thesis
    unfolding main_writeResults_def by (simp only: l option.case sum.case)
qed

lemma linesOf_line:
  "CHR 0x0A \<notin> set l \<Longrightarrow> linesOf (l @ CHR 0x0A # rest) = l # linesOf rest"
  by (induction l) auto

lemma vulnerable_as_filter:
  "concat (map (\<lambda>k. case results k of
                      None \<Rightarrow> []
                    | Some r \<Rightarrow> if IsVulnerable r then [f k r] else []) order)
   = map (\<lambda>k. f k (the (results k)))
       (filter (\<lambda>k. \<exists>r. results k = Some r \<and> IsVulnerable r) order)"
  by (induction order) (auto split: option.splits)

lemma vulnerable_set:
  assumes "set order = dom results"
  shows "set (map (\<lambda>k. f k (the (results k)))
            (filter (\<lambda>k. \<exists>r. results k = Some r \<and> IsVulnerable r) order))
         = {f k r | k r. results k = Some r \<and> IsVulnerable r}"
proof (intro set_eqI iffI)
  fix l
  assume "l \<in> set (map (\<lambda>k. f k (the (results k)))
            (filter (\<lambda>k. \<exists>r. results k = Some r \<and> IsVulnerable r) order))"
  then obtain k r where "l = f k (the (results k))" "results k = Some r" "IsVulnerable r"
    by auto
  then show "l \<in> {f k r | k r. results k = Some r \<and> IsVulnerable r}"
    by auto
next
  fix l
  assume "l \<in> {f k r | k r. results k = Some r \<and> IsVulnerable r}"
  then obtain k r where l: "l = f k r" and k: "results k = Some r" and v: "IsVulnerable r"
    by auto
  have "k \<in> set order" using k assms by auto
  then have "k \<in> set (filter (\<lambda>k. \<exists>r. results k = Some r \<and> IsVulnerable r) order)"
    using k v by simp
  then have "f k (the (results k))
      \<in> set (map (\<lambda>k. f k (the (results k)))
            (filter (\<lambda>k. \<exists>r. results k = Some r \<and> IsVulnerable r) order))"
    by (simp only: set_map) (rule imageI)
  then show "l \<in> set (map (\<lambda>k. f k (the (results k)))
            (filter (\<lambda>k. \<exists>r. results k = Some r \<and> IsVulnerable r) order))"
    using l k by simp
qed

lemma vulnerable_length:
  assumes "distinct order" and "set order = dom results"
  shows "length (map (\<lambda>k. f k (the (results k)))
            (filter (\<lambda>k. \<exists>r. results k = Some r \<and> IsVulnerable r) order))
         = card {k. \<exists>r. results k = Some r \<and> IsVulnerable r}"
proof -
  have "{k. \<exists>r. results k = Some r \<and> IsVulnerable r} \<inter> set order
      = {k. \<exists>r. results k = Some r \<and> IsVulnerable r}"
    using assms(2) by auto
  then show ?thesis
    using assms(1) by (simp add: distinct_length_filter)
qed

lemma linesOf_report:
  assumes "\<forall>k r. results k = Some r \<and> IsVulnerable r
      \<longrightarrow> CHR 0x0A \<notin> set k \<and> CHR 0x0A \<notin> set (CNAME r)"
  shows "linesOf (concat (map (\<lambda>k. case results k of
                             None \<Rightarrow> []
                           | Some r \<Rightarrow> if IsVulnerable r then reportLine k r else [])
                    order))
     = concat (map (\<lambda>k. case results k of
                      None \<Rightarrow> []
                    | Some r \<Rightarrow>
                        if IsVulnerable r
                        then [''Subdomain: '' @ k @ '', CNAME: '' @ CNAME r
                                @ '', Vulnerable: Yes'']
                        else []) order)"
proof (induction order)
  case Nil
  then show ?case by simp
next
  case (Cons a rest)
  show ?case
  proof (cases "results a")
    case None
    then show ?thesis using Cons.IH by simp
  next
    case (Some r)
    show ?thesis
    proof (cases "IsVulnerable r")
      case False
      then show ?thesis using Some Cons.IH by simp
    next
      case True
      let ?shape = "''Subdomain: '' @ a @ '', CNAME: '' @ CNAME r @ '', Vulnerable: Yes''"
      have "CHR 0x0A \<notin> set a \<and> CHR 0x0A \<notin> set (CNAME r)"
        using assms Some True by blast
      then have clean: "CHR 0x0A \<notin> set ?shape"
        by simp
      have line: "reportLine a r = ?shape @ [CHR 0x0A]"
        by (simp add: reportLine_def)
      have "linesOf (?shape @ CHR 0x0A # tl) = ?shape # linesOf tl" for tl
        using clean by (rule linesOf_line)
      then show ?thesis using Some True Cons.IH by (simp add: line)
    qed
  qed
qed

text \<open>
  C8, as the code has it. Let \<open>order\<close> be the order in which the range over the result map
  yields its keys (each key once), and let creating the file and every write to the file
  succeed, those of the final flush included. Then the file holds, one after the other
  in that order, the texts \<open>Subdomain: <name>, CNAME: <value>, Vulnerable: Yes\<close>, each
  ended by a line feed, of exactly the records marked vulnerable, and nothing for any
  other record (the first part). When moreover no subdomain and no CNAME of a record
  marked vulnerable holds a line feed, the lines of the file are exactly these texts, one
  line for each record marked vulnerable, so the number of lines is the number of such
  records (the second part).
\<close>

theorem filtered_report_lines:
  "distinct order \<and> set order = dom results \<and> (\<forall>k. dev k = None) \<longrightarrow>
     main_writeResults None dev results order
       = Inr (concat (map (\<lambda>k. case results k of
                               None \<Rightarrow> []
                             | Some r \<Rightarrow>
                                 if IsVulnerable r
                                 then ''Subdomain: '' @ k @ '', CNAME: '' @ CNAME r
                                        @ '', Vulnerable: Yes'' @ [CHR 0x0A]
                                 else []) order))
     \<and> ((\<forall>k r. results k = Some r \<and> IsVulnerable r
            \<longrightarrow> CHR 0x0A \<notin> set k \<and> CHR 0x0A \<notin> set (CNAME r)) \<longrightarrow>
         (\<exists>file. main_writeResults None dev results order = Inr file
            \<and> linesOf file
                = concat (map (\<lambda>k. case results k of
                                   None \<Rightarrow> []
                                 | Some r \<Rightarrow>
                                     if IsVulnerable r
                                     then [''Subdomain: '' @ k @ '', CNAME: '' @ CNAME r
                                             @ '', Vulnerable: Yes'']
                                     else []) order)
            \<and> set (linesOf file)
                = {''Subdomain: '' @ k @ '', CNAME: '' @ CNAME r @ '', Vulnerable: Yes''
                     | k r. results k = Some r \<and> IsVulnerable r}
            \<and> length (linesOf file)
                = card {k. \<exists>r. results k = Some r \<and> IsVulnerable r}))"
proof (intro impI conjI)
  assume a: "distinct order \<and> set order = dom results \<and> (\<forall>k. dev k = None)"
  then have d: "distinct order" and k: "set order = dom results"
    and ok: "\<forall>k. dev k = None"
    by blast+
  let ?file = "concat (map (\<lambda>k. case results k of
                             None \<Rightarrow> []
                           | Some r \<Rightarrow> if IsVulnerable r then reportLine k r else [])
                    order)"
  let ?shape = "\<lambda>k r. ''Subdomain: '' @ k @ '', CNAME: '' @ CNAME r @ '', Vulnerable: Yes''"
  let ?lines = "concat (map (\<lambda>k. case results k of
                                   None \<Rightarrow> []
                                 | Some r \<Rightarrow>
                                     if IsVulnerable r then [?shape k r] else []) order)"
  have run: "main_writeResults None dev results order = Inr ?file"
    by (rule main_writeResults_reliable [OF ok])
  show "main_writeResults None dev results order
       = Inr (concat (map (\<lambda>k. case results k of
                               None \<Rightarrow> []
                             | Some r \<Rightarrow>
                                 if IsVulnerable r
                                 then ''Subdomain: '' @ k @ '', CNAME: '' @ CNAME r
                                        @ '', Vulnerable: Yes'' @ [CHR 0x0A]
                                 else []) order))"
    using run by (simp only: reportLine_def)
  assume clean: "\<forall>k r. results k = Some r \<and> IsVulnerable r
            \<longrightarrow> CHR 0x0A \<notin> set k \<and> CHR 0x0A \<notin> set (CNAME r)"
  have lines: "linesOf ?file = ?lines"
    by (rule linesOf_report [OF clean])
  have members: "set ?lines = {?shape k r | k r. results k = Some r \<and> IsVulnerable r}"
    using vulnerable_set [OF k, of ?shape] by (simp only: vulnerable_as_filter)
  have count: "length ?lines = card {k. \<exists>r. results k = Some r \<and> IsVulnerable r}"
    using vulnerable_length [OF d k, of ?shape] by (simp only: vulnerable_as_filter)
  show "\<exists>file. main_writeResults None dev results order = Inr file
            \<and> linesOf file = ?lines
            \<and> set (linesOf file)
                = {?shape k r | k r. results k = Some r \<and> IsVulnerable r}
            \<and> length (linesOf file)
                = card {k. \<exists>r. results k = Some r \<and> IsVulnerable r}"
    using run lines members count by (intro exI [of _ ?file] conjI) (simp_all only:)
qed

text \<open>
  The theorem at the result of a scan of two subdomains of which one is marked vulnerable:
  the file is the one line of that subdomain.
\<close>

theorem filtered_report_lines_witness:
  "\<exists>results script.
     checkCNAMERecords replayDig [''shop.example.com'', ''blog.example.com'']
       [''vulnerable-host.io'']
       [\<lparr>Stdout = ''shops.vulnerable-host.io.'' @ [CHR 0x0A], Stderr = [], Err = None\<rparr>,
        \<lparr>Stdout = [], Stderr = [], Err = None\<rparr>] = (Inr results, script)
     \<and> main_writeResults None reliableDevice results
           [''blog.example.com'', ''shop.example.com'']
         = Inr (''Subdomain: shop.example.com, CNAME: shops.vulnerable-host.io., Vulnerable: Yes''
                  @ [CHR 0x0A])
     \<and> linesOf (''Subdomain: shop.example.com, CNAME: shops.vulnerable-host.io., Vulnerable: Yes''
                  @ [CHR 0x0A])
         = [''Subdomain: shop.example.com, CNAME: shops.vulnerable-host.io., Vulnerable: Yes'']"
proof -
  let ?r1 = "\<lparr>Stdout = ''shops.vulnerable-host.io.'' @ [CHR 0x0A], Stderr = [], Err = None\<rparr>"
  let ?r2 = "\<lparr>Stdout = [], Stderr = [], Err = None\<rparr>"
  let ?subs = "[''shop.example.com'', ''blog.example.com'']"
  let ?pats = "[''vulnerable-host.io'']"
  let ?m = "[''shop.example.com'' \<mapsto>
        \<lparr>CNAME = ''shops.vulnerable-host.io.'', IsVulnerable = True\<rparr>,
      ''blog.example.com'' \<mapsto> \<lparr>CNAME = ''No CNAME record'', IsVulnerable = False\<rparr>]"
  let ?order = "[''blog.example.com'', ''shop.example.com'']"
  let ?line = "''Subdomain: shop.example.com, CNAME: shops.vulnerable-host.io., Vulnerable: Yes''"
  have trim: "TrimSpace (''shops.vulnerable-host.io.'' @ [CHR 0x0A]) = ''shops.vulnerable-host.io.''"
    by code_simp
  have get1: "getCNAMERecord ''shop.example.com'' ?r1 = Inr ''shops.vulnerable-host.io.''"
    using trim by (simp add: getCNAMERecord_def)
  have get2: "getCNAMERecord ''blog.example.com'' ?r2 = Inr ''No CNAME record''"
    by (simp add: getCNAMERecord_def TrimSpace_Nil)
  have verdict1: "matchesAnyPattern (extractWildcardDomain ''shops.vulnerable-host.io.'') ?pats
      = True"
    by code_simp
  have verdict2: "matchesAnyPattern (extractWildcardDomain ''No CNAME record'') ?pats = False"
    by code_simp
  have scan: "checkCNAMERecords replayDig ?subs ?pats [?r1, ?r2] = (Inr ?m, [])"
    by (simp only: checkCNAMERecords_def checkCNAMERecords_loop.simps replayDig.simps
          prod.case get1 get2 sum.case Let_def verdict1 verdict2)
  have d: "distinct ?order"
    by simp
  have k: "set ?order = dom ?m"
    by auto
  have ok: "\<forall>k. reliableDevice k = None"
    by (simp add: reliableDevice_def)
  have clean: "\<forall>k r. ?m k = Some r \<and> IsVulnerable r
      \<longrightarrow> CHR 0x0A \<notin> set k \<and> CHR 0x0A \<notin> set (CNAME r)"
    by (auto split: if_splits)
  note inst = filtered_report_lines [of ?order ?m reliableDevice, THEN mp,
      OF conjI [OF d conjI [OF k ok]]]
  have content: "concat (map (\<lambda>k. case ?m k of
                               None \<Rightarrow> []
                             | Some r \<Rightarrow>
                                 if IsVulnerable r
                                 then ''Subdomain: '' @ k @ '', CNAME: '' @ CNAME r
                                        @ '', Vulnerable: Yes'' @ [CHR 0x0A]
                                 else []) ?order)
      = ?line @ [CHR 0x0A]"
    by simp
  have report: "main_writeResults None reliableDevice ?m ?order = Inr (?line @ [CHR 0x0A])"
    using inst [THEN conjunct1] content by (simp only:)
  from inst [THEN conjunct2, THEN mp, OF clean]
  obtain f where f: "main_writeResults None reliableDevice ?m ?order = Inr f"
    and l: "linesOf f = concat (map (\<lambda>k. case ?m k of
                                   None \<Rightarrow> []
                                 | Some r \<Rightarrow>
                                     if IsVulnerable r
                                     then [''Subdomain: '' @ k @ '', CNAME: '' @ CNAME r
                                             @ '', Vulnerable: Yes'']
                                     else []) ?order)"
    by blast
  have "f = ?line @ [CHR 0x0A]"
    using f report by simp
  moreover have "concat (map (\<lambda>k. case ?m k of
                                   None \<Rightarrow> []
                                 | Some r \<Rightarrow>
                                     if IsVulnerable r
                                     then [''Subdomain: '' @ k @ '', CNAME: '' @ CNAME r
                                             @ '', Vulnerable: Yes'']
                                     else []) ?order) = [?line]"
    by simp
  ultimately have lines: "linesOf (?line @ [CHR 0x0A]) = [?line]"
    using l by (simp only:)
  from scan report lines show ?thesis
    by (intro exI [of _ ?m] exI [of _ "[]"] conjI)
qed

text \<open>
  The claim as it was written fails when dig answers with two lines: trimming keeps the
  line feed between them, the record is marked vulnerable, and with two subdomains of
  which one is vulnerable the file holds two lines, the second of which has not the shape
  \<open>Subdomain: <name>, CNAME: <value>, Vulnerable: Yes\<close>.
\<close>

theorem filtered_report_lines_counterexample:
  "checkCNAMERecords replayDig [''shop.example.com'', ''blog.example.com'']
     [''vulnerable-host.io'']
     [\<lparr>Stdout = ''a.vulnerable-host.io.'' @ [CHR 0x0A] @ ''b.vulnerable-host.io.'' @ [CHR 0x0A],
        Stderr = [], Err = None\<rparr>,
      \<lparr>Stdout = [], Stderr = [], Err = None\<rparr>]
    = (Inr [''shop.example.com'' \<mapsto>
              \<lparr>CNAME = ''a.vulnerable-host.io.'' @ [CHR 0x0A] @ ''b.vulnerable-host.io.'',
                 IsVulnerable = True\<rparr>,
            ''blog.example.com'' \<mapsto> \<lparr>CNAME = ''No CNAME record'', IsVulnerable = False\<rparr>],
       [])
   \<and> main_writeResults None reliableDevice
        [''shop.example.com'' \<mapsto>
              \<lparr>CNAME = ''a.vulnerable-host.io.'' @ [CHR 0x0A] @ ''b.vulnerable-host.io.'',
                 IsVulnerable = True\<rparr>,
         ''blog.example.com'' \<mapsto> \<lparr>CNAME = ''No CNAME record'', IsVulnerable = False\<rparr>]
        [''blog.example.com'', ''shop.example.com'']
      = Inr (''Subdomain: shop.example.com, CNAME: a.vulnerable-host.io.'' @ [CHR 0x0A]
               @ ''b.vulnerable-host.io., Vulnerable: Yes'' @ [CHR 0x0A])
   \<and> linesOf (''Subdomain: shop.example.com, CNAME: a.vulnerable-host.io.'' @ [CHR 0x0A]
               @ ''b.vulnerable-host.io., Vulnerable: Yes'' @ [CHR 0x0A])
      = [''Subdomain: shop.example.com, CNAME: a.vulnerable-host.io.'',
         ''b.vulnerable-host.io., Vulnerable: Yes'']"
proof -
  let ?two = "''a.vulnerable-host.io.'' @ [CHR 0x0A] @ ''b.vulnerable-host.io.''"
  let ?r1 = "\<lparr>Stdout = ''a.vulnerable-host.io.'' @ [CHR 0x0A] @ ''b.vulnerable-host.io.''
      @ [CHR 0x0A], Stderr = [], Err = None\<rparr>"
  let ?r2 = "\<lparr>Stdout = [], Stderr = [], Err = None\<rparr>"
  let ?subs = "[''shop.example.com'', ''blog.example.com'']"
  let ?pats = "[''vulnerable-host.io'']"
  let ?m = "[''shop.example.com'' \<mapsto> \<lparr>CNAME = ?two, IsVulnerable = True\<rparr>,
      ''blog.example.com'' \<mapsto> \<lparr>CNAME = ''No CNAME record'', IsVulnerable = False\<rparr>]"
  let ?order = "[''blog.example.com'', ''shop.example.com'']"
  have trim: "TrimSpace (''a.vulnerable-host.io.'' @ [CHR 0x0A] @ ''b.vulnerable-host.io.''
      @ [CHR 0x0A]) = ?two"
    by code_simp
  have get1: "getCNAMERecord ''shop.example.com'' ?r1 = Inr ?two"
    using trim by (simp add: getCNAMERecord_def)
  have get2: "getCNAMERecord ''blog.example.com'' ?r2 = Inr ''No CNAME record''"
    by (simp add: getCNAMERecord_def TrimSpace_Nil)
  have verdict1: "matchesAnyPattern (extractWildcardDomain ?two) ?pats = True"
    by code_simp
  have verdict2: "matchesAnyPattern (extractWildcardDomain ''No CNAME record'') ?pats = False"
    by code_simp
  have scan: "checkCNAMERecords replayDig ?subs ?pats [?r1, ?r2] = (Inr ?m, [])"
    by (simp only: checkCNAMERecords_def checkCNAMERecords_loop.simps replayDig.simps
          prod.case get1 get2 sum.case Let_def verdict1 verdict2)
  have report: "main_writeResults None reliableDevice ?m ?order
      = Inr (''Subdomain: shop.example.com, CNAME: a.vulnerable-host.io.'' @ [CHR 0x0A]
               @ ''b.vulnerable-host.io., Vulnerable: Yes'' @ [CHR 0x0A])"
    by code_simp
  have lines: "linesOf (''Subdomain: shop.example.com, CNAME: a.vulnerable-host.io.'' @ [CHR 0x0A]
               @ ''b.vulnerable-host.io., Vulnerable: Yes'' @ [CHR 0x0A])
      = [''Subdomain: shop.example.com, CNAME: a.vulnerable-host.io.'',
         ''b.vulnerable-host.io., Vulnerable: Yes'']"
    by code_simp
  from scan report lines show ?thesis by (intro conjI)
qed

text \<open>
  \<^verbatim>\<open>main\<close> drops the error of the final flush: on a device that takes no byte the
  program still ends normally, and the file is empty although a record is marked
  vulnerable.
\<close>

lemma flush_error_is_dropped:
  "main_writeResults None (\<lambda>k. Some (0, ''no space left on device''))
     [''shop.example.com'' \<mapsto>
        \<lparr>CNAME = ''shops.vulnerable-host.io.'', IsVulnerable = True\<rparr>]
     [''shop.example.com''] = Inr []"
  by code_simp

end
